theory Spec2Isabelle
  imports Complex_Main "HOL-Library.Sublist" "HOL-Library.Log_Nat"
begin

section \<open>Python floats\<close>

text \<open>
  A Python \<open>float\<close> is an IEEE 754 binary64 number. It is modelled by the rational it
  denotes; every arithmetic operation computes the exact result and rounds it to the
  nearest number with a 53 bit significand, ties to even. The exponent is not bounded
  (no overflow to infinity, no subnormal numbers): the values of this program (scores
  between 0 and 2, ratios of a count to a length, clock readings) stay far inside the
  normal range.
\<close>

type_synonym double = rat

definition round_half_even :: "rat \<Rightarrow> int" where
  "round_half_even x = (let f = \<lfloor>x\<rfloor>; d = x - of_int f in
     if d < 1 / 2 then f else if d > 1 / 2 then f + 1 else if even f then f else f + 1)"

definition pow2 :: "int \<Rightarrow> rat" where
  "pow2 e = (if e \<ge> 0 then 2 ^ nat e else 1 / 2 ^ nat (- e))"

definition floor_log2 :: "rat \<Rightarrow> int" where
  \<comment> \<open>for \<open>a > 0\<close>: the \<open>e\<close> with \<open>2^e \<le> a < 2^(e+1)\<close>\<close>
  "floor_log2 a = (if a \<ge> 1 then bitlen \<lfloor>a\<rfloor> - 1
     else let k = bitlen \<lfloor>1 / a\<rfloor> - 1 in if a * 2 ^ nat k = 1 then - k else - (k + 1))"

definition fl :: "rat \<Rightarrow> double" where
  \<comment> \<open>round to nearest, ties to even, 53 bit significand\<close>
  "fl x = (if x = 0 then 0 else
     let a = \<bar>x\<bar>; u = pow2 (floor_log2 a - 52)
     in sgn x * of_int (round_half_even (a / u)) * u)"

definition fadd :: "double \<Rightarrow> double \<Rightarrow> double" where
  "fadd x y = fl (x + y)"

definition fsub :: "double \<Rightarrow> double \<Rightarrow> double" where
  "fsub x y = fl (x - y)"

definition fmul :: "double \<Rightarrow> double \<Rightarrow> double" where
  "fmul x y = fl (x * y)"

definition int_truediv :: "int \<Rightarrow> int \<Rightarrow> double" where
  \<comment> \<open>\<open>a / b\<close> on two Python ints with \<open>b \<noteq> 0\<close>: the correctly rounded quotient\<close>
  "int_truediv a b = fl (of_int a / of_int b)"

section \<open>Python strings\<close>

text \<open>
  A \<open>str\<close> is a sequence of code points. The model is \<open>string\<close>, whose characters are
  the code points below 256 (Latin-1), which covers every word of the program's word
  lists. On these code points \<open>str.isupper\<close> holds for \<open>A\<close>..\<open>Z\<close> and for 0xC0..0xDE
  without the multiplication sign 0xD7, and \<open>str.lower\<close> adds 32 to exactly these.
\<close>

definition isupper :: "char \<Rightarrow> bool" where
  "isupper c = (let n = (of_char c :: nat) in
     (0x41 \<le> n \<and> n \<le> 0x5A) \<or> (0xC0 \<le> n \<and> n \<le> 0xDE \<and> n \<noteq> 0xD7))"

definition lower_char :: "char \<Rightarrow> char" where
  "lower_char c = (if isupper c then char_of ((of_char c :: nat) + 32) else c)"

definition lower :: "string \<Rightarrow> string" where
  "lower s = map lower_char s"

definition py_in :: "string \<Rightarrow> string \<Rightarrow> bool" where
  \<comment> \<open>\<open>word in text\<close>: \<open>word\<close> occurs in \<open>text\<close> as a contiguous substring\<close>
  "py_in word text = sublist word text"

definition str_count :: "string \<Rightarrow> char \<Rightarrow> nat" where
  \<comment> \<open>\<open>text.count(c)\<close> for a one-character string \<open>c\<close>\<close>
  "str_count text c = count_list text c"

section \<open>Messages and feature extraction\<close>

text \<open>
  A parsed message as the extractor sees it: the decoded headers, the text that
  \<open>_extract_content\<close> returns, and what \<open>_has_attachments\<close> reads: whether the
  message is multipart and, for each part of \<open>walk()\<close>, its main content type and its
  \<open>Content-Disposition\<close> header. \<open>msg_header_count\<close> is \<open>len(email_message)\<close>, which
  decides the truth value of the message object.
\<close>

record mime_part =
  part_maintype :: string
  part_disposition :: "string option"

record email_message =
  msg_subject :: string
  msg_from :: string
  msg_to :: string
  msg_date :: string
  msg_content :: string
  msg_header_count :: nat
  msg_is_multipart :: bool
  msg_walk :: "mime_part list"

record spam_features =
  subject_length :: nat
  content_length :: nat
  total_length :: nat
  caps_ratio :: double
  exclamation_count :: nat
  question_count :: nat
  dollar_count :: nat
  urgent_words :: nat
  spam_words :: nat
  has_suspicious_domain :: bool
  has_many_links :: nat
  has_attachments :: bool

definition suspicious_domains :: "string list" where
  "suspicious_domains = [''spam.com'', ''malware.com'', ''virus.com'', ''fake.com'',
     ''suspicious.com'', ''scam.com'', ''phishing.com'']"

definition check_suspicious_domain :: "string \<Rightarrow> bool" where
  "check_suspicious_domain sender =
     (let sender_lower = lower sender
      in list_ex (\<lambda>domain. py_in domain sender_lower) suspicious_domains)"

fun has_attachments_walk :: "mime_part list \<Rightarrow> bool" where
  "has_attachments_walk [] = False"
| "has_attachments_walk (part # parts) =
     (if part_maintype part = ''multipart'' then has_attachments_walk parts
      else if part_disposition part = None then has_attachments_walk parts
      else True)"

definition msg_has_attachments :: "email_message \<Rightarrow> bool" where
  "msg_has_attachments email_message =
     (if msg_is_multipart email_message then has_attachments_walk (msg_walk email_message)
      else False)"

text \<open>
  The link pattern
  \<^verbatim>\<open>http[s]?://(?:[a-zA-Z]|[0-9]|[$-_@.&+]|[!*\\(\\),]|(?:%[0-9a-fA-F][0-9a-fA-F]))+\<close>.
  The class \<^verbatim>\<open>[$-_@.&+]\<close> contains the range from \<open>$\<close> (0x24) to \<open>_\<close> (0x5F), which has
  the digits, the capital letters, \<open>%\<close> and every character of the fourth class
  except \<open>!\<close>; so the repeated group matches one character of \<open>url_char\<close> at a time,
  and the greedy repetition takes the longest run of them.
\<close>

definition url_char :: "char \<Rightarrow> bool" where
  "url_char c = (let n = (of_char c :: nat) in
     n = 0x21 \<or> (0x24 \<le> n \<and> n \<le> 0x5F) \<or> (0x61 \<le> n \<and> n \<le> 0x7A))"

definition match_url :: "string \<Rightarrow> (string \<times> string) option" where
  \<comment> \<open>a match of the pattern at the start of \<open>s\<close>: the matched text and the rest\<close>
  "match_url s =
     (if prefix ''https://'' s \<and> takeWhile url_char (drop 8 s) \<noteq> []
      then Some (''https://'' @ takeWhile url_char (drop 8 s), dropWhile url_char (drop 8 s))
      else if prefix ''http://'' s \<and> takeWhile url_char (drop 7 s) \<noteq> []
      then Some (''http://'' @ takeWhile url_char (drop 7 s), dropWhile url_char (drop 7 s))
      else None)"

lemma match_url_shorter: "match_url s = Some (m, r) \<Longrightarrow> length r < length s"
proof -
  assume a: "match_url s = Some (m, r)"
  have d: "length (dropWhile url_char (drop k s)) \<le> length s - k" for k
    using length_dropWhile_le [of url_char "drop k s"] by simp
  have p8: "prefix ''https://'' s \<Longrightarrow> 8 \<le> length s"
    using prefix_length_le by fastforce
  have p7: "prefix ''http://'' s \<Longrightarrow> 7 \<le> length s"
    using prefix_length_le by fastforce
  from a show ?thesis
    using d [of 8] d [of 7] p8 p7
    by (auto simp: match_url_def split: if_splits)
qed

function findall_links :: "string \<Rightarrow> string list" where
  \<comment> \<open>\<open>re.findall\<close>: leftmost matches, scanning on from the end of each match\<close>
  "findall_links [] = []"
| "findall_links (c # cs) =
     (case match_url (c # cs) of
        Some (m, r) \<Rightarrow> m # findall_links r
      | None \<Rightarrow> findall_links cs)"
  by pat_completeness auto
termination
  by (relation "measure length") (auto dest: match_url_shorter)

definition urgent_word_list :: "string list" where
  "urgent_word_list = [''urgente'', ''urgent'', ''important'', ''importante'',
     [CHR ''a'', CHR ''c'', CHR ''t'', CHR 0xFA, CHR ''a''], ''actua'']"

definition spam_word_list :: "string list" where
  "spam_word_list = [''gratis'', ''free'', ''gana'', ''win'', ''dinero'', ''money'',
     ''oferta'', ''offer'']"

definition extract_spam_features ::
  "string \<Rightarrow> string \<Rightarrow> string \<Rightarrow> email_message option \<Rightarrow> spam_features" where
  "extract_spam_features subject sender content email_message =
     (let full_text = lower (subject @ '' '' @ content)
      in \<lparr> subject_length = length subject,
           content_length = length content,
           total_length = length full_text,
           caps_ratio = (if full_text \<noteq> []
                         then int_truediv (int (length (filter isupper full_text)))
                                (int (length full_text))
                         else 0),
           exclamation_count = str_count full_text (CHR ''!''),
           question_count = str_count full_text (CHR ''?''),
           dollar_count = str_count full_text (CHR ''$''),
           urgent_words = length (filter (\<lambda>word. py_in word full_text) urgent_word_list),
           spam_words = length (filter (\<lambda>word. py_in word full_text) spam_word_list),
           has_suspicious_domain = check_suspicious_domain sender,
           has_many_links = length (findall_links content),
           has_attachments =
             (case email_message of
                None \<Rightarrow> False
              | Some m \<Rightarrow> if msg_header_count m \<noteq> 0 then msg_has_attachments m else False) \<rparr>)"

text \<open>
  \<open>_extract_email_info\<close>: the dictionary built for one fetched message. The headers
  of \<open>email_message\<close> are the values \<open>_decode_header\<close> returned, and \<open>msg_content\<close>
  is the text \<open>_extract_content\<close> returned.
\<close>

record email_info =
  info_email_id :: string
  info_subject :: string
  info_sender :: string
  info_to :: string
  info_date :: string
  info_content :: string
  info_features :: spam_features
  info_size :: nat
  info_has_attachments :: bool

definition extract_email_info :: "email_message \<Rightarrow> string \<Rightarrow> email_info" where
  "extract_email_info email_message email_id =
     (let subject = msg_subject email_message;
          sender = msg_from email_message;
          to = msg_to email_message;
          date = msg_date email_message;
          content = msg_content email_message;
          features = extract_spam_features subject sender content (Some email_message)
      in \<lparr> info_email_id = email_id,
           info_subject = subject,
           info_sender = sender,
           info_to = to,
           info_date = date,
           info_content = content,
           info_features = features,
           info_size = length content,
           info_has_attachments = msg_has_attachments email_message \<rparr>)"

section \<open>The spam scorer\<close>

record analysis_result =
  is_spam :: bool
  spam_score :: double
  confidence :: double
  features_used :: spam_features

definition analyze_email_spam :: "email_info \<Rightarrow> analysis_result" where
  "analyze_email_spam email_info =
     (let features = info_features email_info;
          spam_score = 0;
          weights_caps_ratio = fl (2 / 10);
          weights_exclamation_count = fl (15 / 100);
          weights_urgent_words = fl (25 / 100);
          weights_spam_words = fl (2 / 10);
          weights_has_suspicious_domain = fl (3 / 10);
          weights_has_many_links = fl (1 / 10);
          spam_score = (if caps_ratio features > fl (3 / 10)
                        then fadd spam_score weights_caps_ratio else spam_score);
          spam_score = (if exclamation_count features > 3
                        then fadd spam_score weights_exclamation_count else spam_score);
          spam_score = (if urgent_words features > 0
                        then fadd spam_score weights_urgent_words else spam_score);
          spam_score = (if spam_words features > 2
                        then fadd spam_score weights_spam_words else spam_score);
          spam_score = (if has_suspicious_domain features
                        then fadd spam_score weights_has_suspicious_domain else spam_score);
          spam_score = (if has_many_links features > 5
                        then fadd spam_score weights_has_many_links else spam_score);
          is_spam = (spam_score > fl (6 / 10));
          confidence = min (fmul spam_score (fl (15 / 10))) (fl 1)
      in \<lparr> is_spam = is_spam,
           spam_score = spam_score,
           confidence = confidence,
           features_used = features \<rparr>)"

text \<open>
  The rule table as the specification words it: an ordered list of a condition and the
  increment it adds, in the table's decimal numbers. The score is the running float sum
  of the increments whose condition holds; \<open>exact_score\<close> is the same sum in exact
  arithmetic.
\<close>

definition rule_table :: "((spam_features \<Rightarrow> bool) \<times> rat) list" where
  "rule_table =
     [(\<lambda>f. caps_ratio f > fl (3 / 10), 20 / 100),
      (\<lambda>f. exclamation_count f > 3, 15 / 100),
      (\<lambda>f. urgent_words f > 0, 25 / 100),
      (\<lambda>f. spam_words f > 2, 20 / 100),
      (\<lambda>f. has_suspicious_domain f, 30 / 100),
      (\<lambda>f. has_many_links f > 5, 10 / 100)]"

definition table_score :: "spam_features \<Rightarrow> double" where
  "table_score f =
     foldl (\<lambda>score (cond, incr). if cond f then fadd score (fl incr) else score) 0 rule_table"

definition exact_score :: "spam_features \<Rightarrow> rat" where
  "exact_score f =
     foldl (\<lambda>score (cond, incr). if cond f then score + incr else score) 0 rule_table"

section \<open>The mailbox client\<close>

text \<open>
  The IMAP server is outside the program. A \<open>mailbox\<close> holds the answers the server
  gives during one pass: whether \<open>select('INBOX')\<close> raises, the result of each search
  and the result of fetching each message. A search answers a status and the
  identifiers of \<open>messages[0].split()\<close>, or raises. Fetching an identifier covers the
  whole body of the \<open>try\<close> of the fetch loops: the \<open>fetch\<close> call with its status, and
  the parsing of the message, which may raise. The dates of the \<open>SINCE\<close> criteria are
  \<open>datetime.now()\<close> less a number of days; the criterion keeps the number of days.
\<close>

datatype search_criteria =
  Crit_ALL | Crit_SINCE int | Crit_UNSEEN_SINCE int | Crit_SEEN_SINCE int

datatype search_result =
  Search_Raises | Search_Status bool "string list"

datatype fetch_result =
  Fetch_Raises | Fetch_Not_OK | Fetch_OK email_message

record mailbox =
  select_raises :: bool
  search :: "search_criteria \<Rightarrow> search_result"
  fetch :: "string \<Rightarrow> fetch_result"

definition py_last :: "int \<Rightarrow> 'a list \<Rightarrow> 'a list" where
  \<comment> \<open>the slice \<open>xs[-n:]\<close>; \<open>xs[-0:]\<close> is \<open>xs[0:]\<close>, the whole list\<close>
  "py_last n xs =
     (if n > 0 then drop (length xs - nat n) xs
      else if n = 0 then xs
      else drop (nat (- n)) xs)"

fun fetch_all :: "mailbox \<Rightarrow> string list \<Rightarrow> email_info list" where
  \<comment> \<open>the fetch loop: a message whose fetch is not OK or raises is skipped\<close>
  "fetch_all mb [] = []"
| "fetch_all mb (email_id # email_ids) =
     (case fetch mb email_id of
        Fetch_OK email_message \<Rightarrow> extract_email_info email_message email_id # fetch_all mb email_ids
      | Fetch_Not_OK \<Rightarrow> fetch_all mb email_ids
      | Fetch_Raises \<Rightarrow> fetch_all mb email_ids)"

definition get_all_emails :: "mailbox \<Rightarrow> int \<Rightarrow> email_info list" where
  "get_all_emails mb max_emails =
     (if select_raises mb then []
      else case search mb Crit_ALL of
        Search_Raises \<Rightarrow> []
      | Search_Status ok email_ids \<Rightarrow>
          if \<not> ok then []
          else if email_ids = [] then []
          else let email_ids = (if int (length email_ids) > max_emails
                                then py_last max_emails email_ids else email_ids)
               in fetch_all mb email_ids)"

definition get_recent_emails :: "mailbox \<Rightarrow> int \<Rightarrow> int \<Rightarrow> email_info list" where
  "get_recent_emails mb days_back max_emails =
     (if select_raises mb then []
      else case search mb (Crit_SINCE days_back) of
        Search_Raises \<Rightarrow> []
      | Search_Status ok email_ids \<Rightarrow>
          if \<not> ok then []
          else if email_ids = [] then []
          else let email_ids = (if int (length email_ids) > max_emails
                                then py_last max_emails email_ids else email_ids)
               in fetch_all mb email_ids)"

definition get_recent_unread_emails :: "mailbox \<Rightarrow> int \<Rightarrow> int \<Rightarrow> email_info list" where
  "get_recent_unread_emails mb days_back max_emails =
     (if select_raises mb then []
      else case search mb (Crit_UNSEEN_SINCE days_back) of
        Search_Raises \<Rightarrow> []
      | Search_Status ok unread_email_ids \<Rightarrow>
          let emails = (if ok \<and> unread_email_ids \<noteq> []
                        then fetch_all mb unread_email_ids else [])
          in case search mb (Crit_SEEN_SINCE 2) of
               Search_Raises \<Rightarrow> []
             | Search_Status ok read_email_ids \<Rightarrow>
                 let max_read_emails = max_emails div 2;
                     emails = emails @ (if ok \<and> read_email_ids \<noteq> []
                                        then fetch_all mb (py_last max_read_emails read_email_ids)
                                        else []);
                     emails = (if int (length emails) > max_emails
                               then py_last max_emails emails else emails)
                 in emails)"

text \<open>
  The connection object belongs to \<open>imaplib\<close>. \<open>disconnect\<close> reads whether it has an
  attribute \<open>_state\<close> and its value, and calls \<open>logout\<close> and \<open>close\<close>, each of which
  may raise an \<open>Exception\<close>.
\<close>

datatype py_exception = Exception

record imap_connection =
  conn_state_attr :: "string option"
  conn_logout_raises :: bool
  conn_close_raises :: bool

record email_monitor =
  connection :: "imap_connection option"

definition logout :: "imap_connection \<Rightarrow> py_exception + unit" where
  "logout conn = (if conn_logout_raises conn then Inl Exception else Inr ())"

definition close :: "imap_connection \<Rightarrow> py_exception + unit" where
  "close conn = (if conn_close_raises conn then Inl Exception else Inr ())"

definition try_except :: "py_exception + unit \<Rightarrow> py_exception + unit" where
  \<comment> \<open>\<open>try: body except Exception as e: log\<close>\<close>
  "try_except body = (case body of Inl e \<Rightarrow> Inr () | Inr u \<Rightarrow> Inr u)"

definition and_then :: "py_exception + unit \<Rightarrow> py_exception + unit \<Rightarrow> py_exception + unit" where
  \<comment> \<open>two statements in sequence: the second runs if the first did not raise\<close>
  "and_then first second = (case first of Inl e \<Rightarrow> Inl e | Inr u \<Rightarrow> second)"

definition disconnect :: "email_monitor \<Rightarrow> (py_exception + unit) \<times> email_monitor" where
  \<comment> \<open>the outcome of the call (\<open>Inl\<close>: it raised) and the monitor afterwards; the
      \<open>finally\<close> clause clears the connection whatever the outcome\<close>
  "disconnect self =
     (case connection self of
        None \<Rightarrow> (Inr (), self)
      | Some conn \<Rightarrow>
          (try_except
             (and_then
                (if conn_state_attr conn \<noteq> None \<and> conn_state_attr conn \<noteq> Some ''LOGOUT''
                 then try_except (logout conn) else Inr ())
                (try_except (close conn))),
           self\<lparr>connection := None\<rparr>))"

section \<open>The store\<close>

text \<open>
  The tables \<open>email_accounts\<close>, \<open>analyzed_emails\<close> and \<open>email_features\<close> as lists of
  rows, and the counter behind \<open>AUTOINCREMENT\<close>. The columns filled from the wall
  clock (\<open>created_at\<close>, \<open>processed_at\<close>, \<open>extracted_at\<close>) are left out. A time is a
  number of seconds since the epoch.
\<close>

type_synonym timestamp = rat

record email_account =
  acc_id :: int
  acc_email :: string
  acc_password :: string
  acc_server :: string
  acc_port :: int
  acc_protocol :: string
  acc_is_active :: bool
  acc_check_interval :: int
  acc_max_emails_per_check :: int
  acc_last_check_at :: "timestamp option"
  acc_total_emails_checked :: int
  acc_total_spam_detected :: int

record analyzed_email =
  row_id :: nat
  row_account_id :: int
  row_email_id :: string
  row_subject :: string
  row_sender :: string
  row_sender_domain :: string
  row_recipient :: string
  row_content :: string
  row_content_length :: nat
  row_email_size :: nat
  row_has_attachments :: bool
  row_attachment_count :: nat
  row_is_spam :: bool
  row_confidence :: double
  row_spam_score :: double
  row_received_at :: string

record email_feature_row =
  feat_email_id :: nat
  feat_features :: spam_features

record database =
  email_accounts :: "email_account list"
  analyzed_emails :: "analyzed_email list"
  email_features :: "email_feature_row list"
  next_rowid :: nat

text \<open>
  Every statement of \<open>store_email_in_database\<close> runs inside one \<open>try\<close>; a \<open>db_fault\<close>
  says which statement, if any, raises. The database is the one the pass sees through
  its connection: a row inserted before a later statement raises stays visible to the
  pass.
\<close>

datatype db_fault =
  No_Fault | Select_Fault | Insert_Email_Fault | Insert_Features_Fault | Commit_Fault

definition email_exists :: "database \<Rightarrow> int \<Rightarrow> string \<Rightarrow> bool" where
  \<comment> \<open>\<open>SELECT id FROM analyzed_emails WHERE account_id = ? AND email_id = ?\<close> finds a row\<close>
  "email_exists db account_id email_id =
     list_ex (\<lambda>r. row_account_id r = account_id \<and> row_email_id r = email_id) (analyzed_emails db)"

definition sender_domain_of :: "string \<Rightarrow> string" where
  \<comment> \<open>\<open>sender.split('@')[-1].split('>')[0]\<close>\<close>
  "sender_domain_of sender =
     takeWhile (\<lambda>c. c \<noteq> CHR ''>'') (rev (takeWhile (\<lambda>c. c \<noteq> CHR ''@'') (rev sender)))"

definition store_email_in_database ::
  "db_fault \<Rightarrow> int \<Rightarrow> email_info \<Rightarrow> analysis_result \<Rightarrow> database \<Rightarrow> bool \<times> database" where
  "store_email_in_database fault account_id email_info analysis_result db =
     (if fault = Select_Fault then (False, db)
      else if email_exists db account_id (info_email_id email_info) then (False, db)
      else
        let sender_domain = (if info_sender email_info \<noteq> []
                             then sender_domain_of (info_sender email_info) else [])
        in if fault = Insert_Email_Fault then (False, db)
           else
             let email_db_id = next_rowid db;
                 db = db\<lparr> analyzed_emails := analyzed_emails db @
                        [\<lparr> row_id = email_db_id,
                           row_account_id = account_id,
                           row_email_id = info_email_id email_info,
                           row_subject = info_subject email_info,
                           row_sender = info_sender email_info,
                           row_sender_domain = sender_domain,
                           row_recipient = info_to email_info,
                           row_content = info_content email_info,
                           row_content_length = length (info_content email_info),
                           row_email_size = info_size email_info,
                           row_has_attachments = info_has_attachments email_info,
                           row_attachment_count = 0,
                           row_is_spam = is_spam analysis_result,
                           row_confidence = confidence analysis_result,
                           row_spam_score = spam_score analysis_result,
                           row_received_at = info_date email_info \<rparr>],
                        next_rowid := Suc (next_rowid db) \<rparr>
             in if fault = Insert_Features_Fault then (False, db)
                else
                  let db = db\<lparr> email_features := email_features db @
                             [\<lparr> feat_email_id = email_db_id,
                                feat_features = features_used analysis_result \<rparr>] \<rparr>
                  in if fault = Commit_Fault then (False, db) else (True, db))"

definition update_account_statistics ::
  "bool \<Rightarrow> timestamp \<Rightarrow> int \<Rightarrow> int \<Rightarrow> int \<Rightarrow> database \<Rightarrow> database" where
  \<comment> \<open>\<open>fault\<close>: the \<open>UPDATE\<close> raises (it is logged); \<open>now\<close>: \<open>CURRENT_TIMESTAMP\<close>\<close>
  "update_account_statistics fault now account_id emails_processed spam_detected db =
     (if fault then db
      else db\<lparr> email_accounts :=
             map (\<lambda>a. if acc_id a = account_id
                       then a\<lparr> acc_last_check_at := Some now,
                               acc_total_emails_checked := acc_total_emails_checked a + emails_processed,
                               acc_total_spam_detected := acc_total_spam_detected a + spam_detected \<rparr>
                       else a)
               (email_accounts db) \<rparr>)"

section \<open>One pass over an account\<close>

text \<open>
  What one call of \<open>process_account_emails\<close> meets outside the program: how the
  connection and the login end, the mailbox, which statement of the \<open>i\<close>-th call of
  the store raises, whether the statistics update raises, and three readings of the
  clock: \<open>time.time()\<close> when the pass starts and when it builds its report, and the
  \<open>CURRENT_TIMESTAMP\<close> of the statistics update.

  \<open>connect_to_server\<close> assigns \<open>self.connection\<close> before it logs in: when the
  constructor of the connection raises the monitor keeps no connection, and when the
  login raises it keeps the connection it could not authenticate.
\<close>

datatype connect_outcome =
  Connect_Raises | Login_Raises imap_connection | Login_OK imap_connection

record pass_env =
  env_connect :: connect_outcome
  env_mailbox :: mailbox
  env_store_fault :: "nat \<Rightarrow> db_fault"
  env_update_fault :: bool
  env_start_time :: double
  env_end_time :: double
  env_current_timestamp :: timestamp

record processed_email =
  pe_subject :: string
  pe_sender :: string
  pe_is_spam :: bool
  pe_confidence :: double
  pe_spam_score :: double

record pass_report =
  success :: bool
  error :: "string option"
  rep_account_id :: int
  emails_processed :: nat
  spam_detected :: nat
  ham_detected :: nat
  processing_time :: double
  emails_detail :: "processed_email list"

record loop_state =
  ls_db :: database
  ls_processed_emails :: "processed_email list"
  ls_spam_count :: nat
  ls_ham_count :: nat

definition connect_to_server :: "pass_env \<Rightarrow> database \<Rightarrow> int \<Rightarrow> bool" where
  \<comment> \<open>the value returned: the account row must exist; then the connection and the
      login must not raise\<close>
  "connect_to_server env db account_id =
     (if \<not> list_ex (\<lambda>a. acc_id a = account_id) (email_accounts db) then False
      else case env_connect env of
             Connect_Raises \<Rightarrow> False
           | Login_Raises conn \<Rightarrow> False
           | Login_OK conn \<Rightarrow> True)"

definition connect_monitor ::
  "pass_env \<Rightarrow> database \<Rightarrow> int \<Rightarrow> email_monitor \<Rightarrow> email_monitor" where
  \<comment> \<open>the monitor after \<open>connect_to_server\<close>\<close>
  "connect_monitor env db account_id self =
     (if \<not> list_ex (\<lambda>a. acc_id a = account_id) (email_accounts db) then self
      else case env_connect env of
             Connect_Raises \<Rightarrow> self
           | Login_Raises conn \<Rightarrow> self\<lparr>connection := Some conn\<rparr>
           | Login_OK conn \<Rightarrow> self\<lparr>connection := Some conn\<rparr>)"

fun process_each :: "(nat \<Rightarrow> db_fault) \<Rightarrow> nat \<Rightarrow> int \<Rightarrow> email_info list \<Rightarrow> loop_state \<Rightarrow> loop_state" where
  \<comment> \<open>the loop \<open>for email_info in emails\<close>; \<open>i\<close> counts the calls of the store\<close>
  "process_each faults i account_id [] st = st"
| "process_each faults i account_id (email_info # emails) st =
     (let analysis_result = analyze_email_spam email_info;
          (stored, db) = store_email_in_database (faults i) account_id email_info
                           analysis_result (ls_db st)
      in process_each faults (Suc i) account_id emails
           (if stored
            then \<lparr> ls_db = db,
                   ls_processed_emails = ls_processed_emails st @
                     [\<lparr> pe_subject = info_subject email_info,
                        pe_sender = info_sender email_info,
                        pe_is_spam = is_spam analysis_result,
                        pe_confidence = confidence analysis_result,
                        pe_spam_score = spam_score analysis_result \<rparr>],
                   ls_spam_count = (if is_spam analysis_result
                                    then ls_spam_count st + 1 else ls_spam_count st),
                   ls_ham_count = (if is_spam analysis_result
                                   then ls_ham_count st else ls_ham_count st + 1) \<rparr>
            else st\<lparr> ls_db := db \<rparr>))"

definition fetch_emails :: "mailbox \<Rightarrow> int \<Rightarrow> bool \<Rightarrow> bool \<Rightarrow> email_info list" where
  \<comment> \<open>the choice of the retrieval strategy in \<open>process_account_emails\<close>\<close>
  "fetch_emails mb max_emails get_all get_recent =
     (if get_recent then get_recent_emails mb 7 max_emails
      else if get_all then get_all_emails mb max_emails
      else get_recent_unread_emails mb 7 max_emails)"

text \<open>
  \<open>process_account_emails\<close> acts on the database and on the connection of the
  monitor. Every call in its body catches its own exceptions, so the handler of its
  outer \<open>try\<close> is not reached. Its \<open>finally\<close> clause calls \<open>disconnect\<close> on
  whatever \<open>connect_to_server\<close> left; \<open>pass_disconnect\<close> is that call, with its
  outcome and the monitor the pass leaves.
\<close>

definition pass_disconnect ::
  "pass_env \<Rightarrow> int \<Rightarrow> database \<Rightarrow> email_monitor \<Rightarrow> (py_exception + unit) \<times> email_monitor" where
  "pass_disconnect env account_id db self = disconnect (connect_monitor env db account_id self)"

definition process_account_emails ::
  "pass_env \<Rightarrow> int \<Rightarrow> int \<Rightarrow> bool \<Rightarrow> bool \<Rightarrow> database \<Rightarrow> pass_report \<times> database" where
  "process_account_emails env account_id max_emails get_all get_recent db =
     (let start_time = env_start_time env
      in if \<not> connect_to_server env db account_id
         then (\<lparr> success = False,
                  error = Some ''No se pudo conectar al servidor'',
                  rep_account_id = account_id,
                  emails_processed = 0, spam_detected = 0, ham_detected = 0,
                  processing_time = 0, emails_detail = [] \<rparr>, db)
         else
           let emails = fetch_emails (env_mailbox env) max_emails get_all get_recent
           in if emails = []
              then (\<lparr> success = True, error = None, rep_account_id = account_id,
                       emails_processed = 0, spam_detected = 0, ham_detected = 0,
                       processing_time = fsub (env_end_time env) start_time,
                       emails_detail = [] \<rparr>, db)
              else
                let st = process_each (env_store_fault env) 0 account_id emails
                           \<lparr> ls_db = db, ls_processed_emails = [],
                             ls_spam_count = 0, ls_ham_count = 0 \<rparr>;
                    db = update_account_statistics (env_update_fault env)
                           (env_current_timestamp env) account_id
                           (int (length (ls_processed_emails st))) (int (ls_spam_count st))
                           (ls_db st)
                in (\<lparr> success = True, error = None, rep_account_id = account_id,
                        emails_processed = length (ls_processed_emails st),
                        spam_detected = ls_spam_count st,
                        ham_detected = ls_ham_count st,
                        processing_time = fsub (env_end_time env) start_time,
                        emails_detail = ls_processed_emails st \<rparr>, db))"

section \<open>The automatic scheduler\<close>







section \<open>Definitions that follow the specification's words\<close>

text \<open>
  These are not translated from the code. Each words one notion of the specification,
  so that the code can be compared with it.
\<close>

definition triggered :: "spam_features \<Rightarrow> bool list" where
  \<comment> \<open>which conditions of the rule table a feature vector triggers, in table order\<close>
  "triggered f = map (\<lambda>(cond, incr). cond f) rule_table"

definition spec_uppercase_ratio :: "string \<Rightarrow> string \<Rightarrow> rat" where
  \<comment> \<open>count of uppercase characters / total character count of (subject + body),
      0 if empty\<close>
  "spec_uppercase_ratio subject body =
     (let text = subject @ body
      in if text = [] then 0
         else of_nat (length (filter isupper text)) / of_nat (length text))"

definition spec_occurrences :: "string \<Rightarrow> string \<Rightarrow> nat" where
  \<comment> \<open>the number of places of \<open>text\<close> at which \<open>word\<close> occurs\<close>
  "spec_occurrences word text = length (filter (prefix word) (suffixes text))"

definition spec_word_count :: "string list \<Rightarrow> string \<Rightarrow> nat" where
  \<comment> \<open>the substring occurrences of the words of a list\<close>
  "spec_word_count words text = sum_list (map (\<lambda>word. spec_occurrences word text) words)"

definition lastn :: "nat \<Rightarrow> 'a list \<Rightarrow> 'a list" where
  \<comment> \<open>the last \<open>n\<close> entries of a list, all of it when it is shorter\<close>
  "lastn n xs = drop (length xs - n) xs"

definition search_ids :: "search_result \<Rightarrow> string list option" where
  \<comment> \<open>the candidates of a search: none when the status is not OK; \<open>None\<close> when the
      search raises\<close>
  "search_ids r = (case r of Search_Raises \<Rightarrow> None
                   | Search_Status ok ids \<Rightarrow> Some (if ok then ids else []))"

definition fetched_ok :: "mailbox \<Rightarrow> string \<Rightarrow> bool" where
  \<comment> \<open>the message can be fetched and parsed\<close>
  "fetched_ok mb email_id = (case fetch mb email_id of Fetch_OK m \<Rightarrow> True | _ \<Rightarrow> False)"

definition email_key :: "analyzed_email \<Rightarrow> int \<times> string" where
  \<comment> \<open>the pair (account id, server message id) of a stored email\<close>
  "email_key r = (row_account_id r, row_email_id r)"

definition unique_emails :: "database \<Rightarrow> bool" where
  \<comment> \<open>the dedup invariant: no two stored emails have the same pair\<close>
  "unique_emails db = distinct (map email_key (analyzed_emails db))"

definition stored_count :: "database \<Rightarrow> int \<Rightarrow> string \<Rightarrow> nat" where
  \<comment> \<open>how many stored emails a pair has\<close>
  "stored_count db account_id email_id =
     length (filter (\<lambda>r. row_account_id r = account_id \<and> row_email_id r = email_id)
        (analyzed_emails db))"

definition store_sequence ::
  "(db_fault \<times> int \<times> email_info \<times> analysis_result) list \<Rightarrow> database \<Rightarrow> database" where
  \<comment> \<open>any sequence of store operations\<close>
  "store_sequence ops db =
     foldl (\<lambda>db (f, a, e, r). snd (store_email_in_database f a e r db)) db ops"

definition spam_rows :: "database \<Rightarrow> nat" where
  \<comment> \<open>the number of stored emails classified as spam\<close>
  "spam_rows db = length (filter row_is_spam (analyzed_emails db))"

definition credit_account :: "timestamp \<Rightarrow> int \<Rightarrow> nat \<Rightarrow> nat \<Rightarrow> email_account \<Rightarrow> email_account" where
  \<comment> \<open>the account \<open>account_id\<close> with its last check set to \<open>now\<close> and its cumulative
      counters incremented; any other account unchanged\<close>
  "credit_account now account_id processed spam a =
     (if acc_id a = account_id
      then a\<lparr> acc_last_check_at := Some now,
              acc_total_emails_checked := acc_total_emails_checked a + int processed,
              acc_total_spam_detected := acc_total_spam_detected a + int spam \<rparr>
      else a)"


section \<open>Notions used in the proofs\<close>

definition settled :: "db_fault \<Rightarrow> int \<Rightarrow> email_info \<Rightarrow> database \<Rightarrow> bool" where
  \<comment> \<open>a store call that meets this fault on this database inserts nothing\<close>
  "settled fault account_id email_info db =
     (fault = Select_Fault \<or> fault = Insert_Email_Fault
      \<or> email_exists db account_id (info_email_id email_info))"

definition initial_loop_state :: "database \<Rightarrow> loop_state" where
  "initial_loop_state db =
     \<lparr> ls_db = db, ls_processed_emails = [], ls_spam_count = 0, ls_ham_count = 0 \<rparr>"

section \<open>Concrete inputs\<close>

definition full_trigger_info :: email_info where
  "full_trigger_info =
     \<lparr> info_email_id = ''1'', info_subject = [], info_sender = [], info_to = [],
       info_date = [], info_content = [],
       info_features = \<lparr> subject_length = 0, content_length = 0, total_length = 1,
         caps_ratio = 1 / 2, exclamation_count = 4, question_count = 0, dollar_count = 0,
         urgent_words = 1, spam_words = 3, has_suspicious_domain = True,
         has_many_links = 6, has_attachments = False \<rparr>,
       info_size = 0, info_has_attachments = False \<rparr>"


definition empty_message :: email_message where
  "empty_message = \<lparr> msg_subject = [], msg_from = [], msg_to = [], msg_date = [],
     msg_content = [], msg_header_count = 0, msg_is_multipart = False, msg_walk = [] \<rparr>"

definition ten_unread :: "string list" where
  "ten_unread = [''101'', ''102'', ''103'', ''104'', ''105'', ''106'', ''107'', ''108'',
     ''109'', ''110'']"

definition twenty_read :: "string list" where
  "twenty_read = [''201'', ''202'', ''203'', ''204'', ''205'', ''206'', ''207'', ''208'',
     ''209'', ''210'', ''211'', ''212'', ''213'', ''214'', ''215'', ''216'', ''217'',
     ''218'', ''219'', ''220'']"

definition hybrid_example_mailbox :: mailbox where
  \<comment> \<open>10 unread messages of the last 7 days and 20 read messages of the last 2 days\<close>
  "hybrid_example_mailbox =
     \<lparr> select_raises = False,
       search = (\<lambda>c. case c of
                   Crit_UNSEEN_SINCE d \<Rightarrow> Search_Status True ten_unread
                 | Crit_SEEN_SINCE d \<Rightarrow> Search_Status True twenty_read
                 | _ \<Rightarrow> Search_Status True []),
       fetch = (\<lambda>email_id. Fetch_OK empty_message) \<rparr>"

definition example_account :: email_account where
  "example_account =
     \<lparr> acc_id = 1, acc_email = ''user@example.org'', acc_password = ''secret'',
       acc_server = ''imap.example.org'', acc_port = 993, acc_protocol = ''IMAP'',
       acc_is_active = True, acc_check_interval = 15, acc_max_emails_per_check = 50,
       acc_last_check_at = None, acc_total_emails_checked = 0,
       acc_total_spam_detected = 0 \<rparr>"

definition example_db :: database where
  "example_db =
     \<lparr> email_accounts = [example_account], analyzed_emails = [], email_features = [],
       next_rowid = 1 \<rparr>"

definition example_env :: pass_env where
  \<comment> \<open>a pass that starts at time 1000 and updates the statistics at time 1060\<close>
  "example_env =
     \<lparr> env_connect = Login_OK \<lparr> conn_state_attr = None, conn_logout_raises = False,
                                 conn_close_raises = False \<rparr>,
       env_mailbox = hybrid_example_mailbox,
       env_store_fault = (\<lambda>i. No_Fault), env_update_fault = False,
       env_start_time = 1000, env_end_time = 1065, env_current_timestamp = 1060 \<rparr>"

definition stored_example_db :: database where
  "stored_example_db =
     snd (store_email_in_database No_Fault 1 full_trigger_info
            (analyze_email_spam full_trigger_info) example_db)"

section \<open>Facts about the float model\<close>

text \<open>
  \<open>floor_log2\<close> finds the binade of a positive rational, so \<open>fl\<close> can be computed
  from the exponent: \<open>fl_eval\<close> is how the concrete sums below are evaluated.
\<close>

lemma pow2_pos: "0 < pow2 e"
  by (simp add: pow2_def)

lemma bitlen_eqI:
  assumes "2 ^ k \<le> n" "n < 2 ^ Suc k"
  shows "bitlen n = int k + 1"
proof -
  have "nat (int (Suc k)) = Suc k" by simp
  then have "bitlen n \<le> int (Suc k)"
    using assms(2) bitlen_le_iff_power [of n "int (Suc k)"] by (simp del: of_nat_Suc)
  moreover have "int (Suc k) \<le> bitlen n"
    using assms(1) bitlen_ge_iff_power [of "int (Suc k)" n] by (simp add: nat_add_distrib)
  ultimately show ?thesis by simp
qed

lemma floor_log2_eq_ge1:
  assumes "1 \<le> a" "pow2 e \<le> a" "a < pow2 (e + 1)"
  shows "floor_log2 a = e"
proof -
  have e0: "0 \<le> e"
  proof (rule ccontr)
    assume "\<not> 0 \<le> e"
    then have "pow2 (e + 1) \<le> 1" by (simp add: pow2_def)
    with assms show False by simp
  qed
  define k where "k = nat e"
  have ek: "e = int k" using e0 by (simp add: k_def)
  have l: "(2::rat) ^ k \<le> a" using assms(2) e0 by (simp add: pow2_def k_def)
  have u: "a < (2::rat) ^ Suc k" using assms(3) e0 by (simp add: pow2_def k_def nat_add_distrib)
  have "(2::int) ^ k \<le> \<lfloor>a\<rfloor>" using l by (simp add: le_floor_iff)
  moreover have "\<lfloor>a\<rfloor> < (2::int) ^ Suc k" using u by (simp add: floor_less_iff)
  ultimately have "bitlen \<lfloor>a\<rfloor> = int k + 1" by (rule bitlen_eqI)
  then show ?thesis using assms(1) by (simp add: floor_log2_def ek)
qed

lemma floor_log2_eq_lt1:
  assumes "a < 1" "pow2 e \<le> a" "a < pow2 (e + 1)"
  shows "floor_log2 a = e"
proof -
  have apos: "0 < a" using assms(2) pow2_pos [of e] by simp
  have eneg: "e < 0"
  proof (rule ccontr)
    assume "\<not> e < 0"
    then have "1 \<le> pow2 e" by (simp add: pow2_def)
    with assms show False by simp
  qed
  define j where "j = nat (- e)"
  have ej: "e = - int j" and j1: "1 \<le> j" using eneg by (simp_all add: j_def)
  have l: "1 / (2::rat) ^ j \<le> a" using assms(2) eneg by (simp add: pow2_def j_def)
  have u: "a < 1 / (2::rat) ^ (j - 1)"
  proof (cases "e + 1 = 0")
    case True
    then show ?thesis using assms(3) ej by (simp add: pow2_def)
  next
    case False
    then have "e + 1 < 0" using eneg by simp
    moreover have "nat (- (e + 1)) = j - 1" using ej by simp
    ultimately show ?thesis using assms(3) by (simp add: pow2_def)
  qed
  have inv_le: "1 / a \<le> (2::rat) ^ j"
    using l apos by (simp add: field_simps)
  have inv_gt: "(2::rat) ^ (j - 1) < 1 / a"
    using u apos by (simp add: field_simps)
  show ?thesis
  proof (cases "a * 2 ^ j = 1")
    case True
    then have "1 / a = 2 ^ j" using apos by (simp add: field_simps)
    then have "\<lfloor>1 / a\<rfloor> = (2::int) ^ j" by simp
    then have "bitlen \<lfloor>1 / a\<rfloor> = int j + 1" by (simp add: bitlen_eqI)
    then show ?thesis using assms(1) True by (simp add: floor_log2_def ej Let_def)
  next
    case False
    then have "1 / a \<noteq> 2 ^ j" using apos by (auto simp add: field_simps)
    with inv_le have lt: "1 / a < 2 ^ j" by simp
    have "(2::int) ^ (j - 1) \<le> \<lfloor>1 / a\<rfloor>" using inv_gt by (simp add: le_floor_iff)
    moreover have "\<lfloor>1 / a\<rfloor> < (2::int) ^ Suc (j - 1)" using lt j1 by (simp add: floor_less_iff)
    ultimately have b: "bitlen \<lfloor>1 / a\<rfloor> = int (j - 1) + 1" by (rule bitlen_eqI)
    have "a * 2 ^ (j - 1) < 1" using u by (simp add: field_simps)
    then have "a * 2 ^ (j - 1) \<noteq> 1" by simp
    moreover have "nat (int j - 1) = j - 1" by simp
    moreover have "int (j - 1) + 1 = int j" using j1 by simp
    ultimately show ?thesis using assms(1) b by (simp add: floor_log2_def ej Let_def del: of_nat_diff)
  qed
qed

lemma floor_log2_eq: "pow2 e \<le> a \<Longrightarrow> a < pow2 (e + 1) \<Longrightarrow> floor_log2 a = e"
  using floor_log2_eq_ge1 floor_log2_eq_lt1 by (cases "1 \<le> a") auto

lemma fl_eval:
  assumes "pow2 e \<le> \<bar>x\<bar>" "\<bar>x\<bar> < pow2 (e + 1)"
  shows "fl x = sgn x * of_int (round_half_even (\<bar>x\<bar> / pow2 (e - 52))) * pow2 (e - 52)"
proof -
  have "x \<noteq> 0" using assms(1) pow2_pos [of e] by auto
  then show ?thesis using floor_log2_eq [OF assms] by (simp add: fl_def Let_def)
qed

lemma floor_numeral_div: "\<lfloor>numeral a / numeral b :: rat\<rfloor> = numeral a div numeral b"
  using floor_divide_of_int_eq [of "numeral a" "numeral b", where ?'a = rat] by simp

lemmas fl_simps = pow2_def round_half_even_def Let_def floor_numeral_div fadd_def fmul_def fsub_def

section \<open>The float values of the scorer\<close>

text \<open>
  The literals of the scorer and the sums and products it can form from them, each
  computed from its binade by \<open>fl_eval\<close>. The simplifier cancels fractions, so the
  literals appear in lowest terms.
\<close>

lemma fl_02: "fl (1 / 5) = 3602879701896397 / 18014398509481984"
  by (subst fl_eval [where e = "-3"]) (simp_all add: fl_simps)
lemma fl_015: "fl (3 / 20) = 5404319552844595 / 36028797018963968"
  by (subst fl_eval [where e = "-3"]) (simp_all add: fl_simps)
lemma fl_025: "fl (1 / 4) = 1 / 4"
  by (subst fl_eval [where e = "-2"]) (simp_all add: fl_simps)
lemma fl_06: "fl (3 / 5) = 5404319552844595 / 9007199254740992"
  by (subst fl_eval [where e = "-1"]) (simp_all add: fl_simps)






lemma fl_zero: "fl 0 = 0"
  by (simp add: fl_def)

section \<open>Feature extraction\<close>

lemma isupper_lower_char: "\<not> isupper (lower_char c)"
proof (cases "isupper c")
  case True
  then have "(of_char c :: nat) + 32 < 256"
    by (auto simp: isupper_def Let_def)
  then have "(of_char (char_of ((of_char c :: nat) + 32)) :: nat) = of_char c + 32"
    by simp
  with True show ?thesis
    by (auto simp: lower_char_def isupper_def Let_def)
next
  case False
  then show ?thesis by (simp add: lower_char_def)
qed

lemma filter_isupper_lower: "filter isupper (lower s) = []"
  by (simp add: lower_def filter_empty_conv isupper_lower_char)

text \<open>
  The extractor counts the uppercase characters of \<open>full_text\<close>, which it has already
  lower-cased: the count is 0 for every message.
\<close>

lemma caps_ratio_always_zero:
  "caps_ratio (extract_spam_features subject sender content email_message) = 0"
  by (simp add: extract_spam_features_def Let_def filter_isupper_lower int_truediv_def fl_zero)

text \<open>
  Claim C4. The specification defines the uppercase ratio as the count of uppercase
  characters of subject + body over the number of characters. For the subject
  \<open>HELLO\<close> and an empty body that ratio is 1, and the code computes 0: it takes the
  ratio on the lower-cased text.
\<close>

theorem caps_ratio_of_uppercase_subject:
  "caps_ratio (extract_spam_features ''HELLO'' [] [] None) = 0
   \<and> spec_uppercase_ratio ''HELLO'' [] = 1"
  by (simp add: caps_ratio_always_zero spec_uppercase_ratio_def isupper_def)

lemma lower_space: "lower '' '' = '' ''"
  by (simp add: lower_def lower_char_def isupper_def)

lemma not_sublist_short: "length t < length w \<Longrightarrow> \<not> sublist w t"
  using sublist_length_le by fastforce

lemma no_word_in_space:
  "w \<in> set urgent_word_list \<union> set spam_word_list \<Longrightarrow> \<not> py_in w '' ''"
  unfolding py_in_def
  by (rule not_sublist_short) (auto simp: urgent_word_list_def spam_word_list_def)

lemma no_domain_in_empty: "check_suspicious_domain [] = False"
  by (simp add: check_suspicious_domain_def suspicious_domains_def lower_def py_in_def)

text \<open>
  Claim C5, as the code has it. The extractor is a total function: it has no
  \<open>raise\<close>, and its one division is guarded. On an empty subject, sender and body
  every count is 0 and every flag is false, but \<open>total_length\<close> is 1: \<open>full_text\<close> is
  subject, a space, and content, so it is never empty. The attachment flag is the one
  of the message object, and false when no message object is given.
\<close>

theorem extract_empty_input:
  "extract_spam_features [] [] [] email_message =
     \<lparr> subject_length = 0, content_length = 0, total_length = 1, caps_ratio = 0,
       exclamation_count = 0, question_count = 0, dollar_count = 0,
       urgent_words = 0, spam_words = 0, has_suspicious_domain = False,
       has_many_links = 0,
       has_attachments = (case email_message of None \<Rightarrow> False
                          | Some m \<Rightarrow> msg_header_count m \<noteq> 0 \<and> msg_has_attachments m) \<rparr>"
proof -
  have u: "filter (\<lambda>word. py_in word '' '') urgent_word_list = []"
    using no_word_in_space by (simp add: filter_empty_conv)
  have s: "filter (\<lambda>word. py_in word '' '') spam_word_list = []"
    using no_word_in_space by (simp add: filter_empty_conv)
  show ?thesis
    using u s
    by (auto simp add: extract_spam_features_def Let_def lower_space int_truediv_def fl_zero
        str_count_def no_domain_in_empty isupper_def split: option.splits)
qed

text \<open>
  Claim C5 as stated fails: on the empty input \<open>total_length\<close> is not 0.
\<close>

theorem extract_empty_total_length_nonzero:
  "total_length (extract_spam_features [] [] [] None) \<noteq> 0"
  by (simp add: extract_spam_features_def Let_def lower_def)

lemma length_filter_card: "distinct xs \<Longrightarrow> length (filter P xs) = card {x \<in> set xs. P x}"
  by (metis distinct_filter distinct_card set_filter)

lemma distinct_urgent: "distinct urgent_word_list"
  by (simp add: urgent_word_list_def)

lemma distinct_spam: "distinct spam_word_list"
  by (simp add: spam_word_list_def)

text \<open>
  Claim C6 as stated fails: in the text \<open>free free free\<close> the words of the spam list
  have three substring occurrences, and the feature \<open>spam_words\<close> is 1.
\<close>

theorem spam_words_not_occurrences:
  "spec_word_count spam_word_list (lower ([] @ '' '' @ ''free free free'')) = 3
   \<and> spam_words (extract_spam_features [] [] ''free free free'' None) = 1"
  by code_simp

text \<open>
  Claim C6, as the code has it. Each word feature is the number of words of its list
  that occur at least once as a substring of the lower-cased text subject + space +
  body: a word counts once however often it occurs, so \<open>urgent_words\<close> is at most 6
  and \<open>spam_words\<close> at most 8.
\<close>

theorem word_features_count_list_words:
  "urgent_words (extract_spam_features subject sender content m)
     = card {w \<in> set urgent_word_list. sublist w (lower (subject @ '' '' @ content))}
   \<and> spam_words (extract_spam_features subject sender content m)
     = card {w \<in> set spam_word_list. sublist w (lower (subject @ '' '' @ content))}
   \<and> urgent_words (extract_spam_features subject sender content m) \<le> 6
   \<and> spam_words (extract_spam_features subject sender content m) \<le> 8"
proof -
  let ?t = "lower (subject @ '' '' @ content)"
  have u: "urgent_words (extract_spam_features subject sender content m)
      = length (filter (\<lambda>w. sublist w ?t) urgent_word_list)"
    by (simp add: extract_spam_features_def Let_def py_in_def)
  have s: "spam_words (extract_spam_features subject sender content m)
      = length (filter (\<lambda>w. sublist w ?t) spam_word_list)"
    by (simp add: extract_spam_features_def Let_def py_in_def)
  have ul: "length (filter (\<lambda>w. sublist w ?t) urgent_word_list) \<le> length urgent_word_list"
    by (rule length_filter_le)
  have sl: "length (filter (\<lambda>w. sublist w ?t) spam_word_list) \<le> length spam_word_list"
    by (rule length_filter_le)
  have n6: "length urgent_word_list = 6"
    by (simp add: urgent_word_list_def)
  have n8: "length spam_word_list = 8"
    by (simp add: spam_word_list_def)
  show ?thesis
    using ul sl
    by (simp only: u s n6 n8 length_filter_card [OF distinct_urgent, symmetric]
        length_filter_card [OF distinct_spam, symmetric])
qed

section \<open>The scorer and the rule table\<close>

lemma analyze_score_table: "spam_score (analyze_email_spam e) = table_score (info_features e)"
  by (simp add: analyze_email_spam_def table_score_def rule_table_def Let_def)

lemma analyze_is_spam: "is_spam (analyze_email_spam e) = (spam_score (analyze_email_spam e) > fl (3 / 5))"
  by (simp add: analyze_email_spam_def Let_def)






text \<open>
  The float sum decides at the threshold. A vector that triggers exactly the
  exclamation, urgent-word and spam-word conditions has the exact sum 0.60, which is
  not above 0.6; the score the code computes is 0.6000000000000001, and the message
  is classified as spam.
\<close>

lemma sum_three_middle:
  "fadd (fadd (fadd 0 (fl (3 / 20))) (fl (1 / 4))) (fl (1 / 5))
     = 1351079888211149 / 2251799813685248"
proof -
  have s1: "fadd 0 (fl (3 / 20)) = 5404319552844595 / 36028797018963968"
    unfolding fl_015 fadd_def by (subst fl_eval [where e = "-3"]) (simp_all add: fl_simps)
  have s2: "fadd (5404319552844595 / 36028797018963968) (fl (1 / 4))
      = 3602879701896397 / 9007199254740992"
    unfolding fl_025 fadd_def by (subst fl_eval [where e = "-2"]) (simp_all add: fl_simps)
  have s3: "fadd (3602879701896397 / 9007199254740992) (fl (1 / 5))
      = 1351079888211149 / 2251799813685248"
    unfolding fl_02 fadd_def by (subst fl_eval [where e = "-1"]) (simp_all add: fl_simps)
  show ?thesis
    by (simp only: s1 s2 s3)
qed

lemma float_sum_at_threshold:
  assumes "triggered (info_features e) = [False, True, True, True, False, False]"
  shows "exact_score (info_features e) = 60 / 100"
    and "spam_score (analyze_email_spam e) = 1351079888211149 / 2251799813685248"
    and "is_spam (analyze_email_spam e)"
proof -
  show "exact_score (info_features e) = 60 / 100"
    using assms by (simp add: triggered_def exact_score_def rule_table_def)
  have "table_score (info_features e)
      = fadd (fadd (fadd 0 (fl (3 / 20))) (fl (1 / 4))) (fl (1 / 5))"
    using assms by (simp add: triggered_def table_score_def rule_table_def)
  then show sc: "spam_score (analyze_email_spam e) = 1351079888211149 / 2251799813685248"
    using sum_three_middle by (simp add: analyze_score_table)
  show "is_spam (analyze_email_spam e)"
    by (simp add: analyze_is_spam sc fl_06)
qed



section \<open>Closing the connection\<close>

lemma try_except_never_raises: "try_except body = Inr ()"
  by (cases body) (simp_all add: try_except_def)

text \<open>
  Claim C9. Whatever the state of the connection, and whether \<open>logout\<close> or \<open>close\<close>
  raise or not, \<open>disconnect\<close> does not raise and leaves the monitor without a
  connection; a second call does not raise either and changes nothing.
\<close>

theorem disconnect_safe_and_idempotent:
  "fst (disconnect self) = Inr ()
   \<and> connection (snd (disconnect self)) = None
   \<and> disconnect (snd (disconnect self)) = (Inr (), snd (disconnect self))"
  by (cases "connection self") (simp_all add: disconnect_def try_except_never_raises)

text \<open>
  The \<open>finally\<close> clause of a pass: whether the pass never connected, failed to log in
  or worked on an open connection, its \<open>disconnect\<close> does not raise and the monitor is
  left without a connection.
\<close>

lemma pass_disconnect_safe:
  "fst (pass_disconnect env account_id db self) = Inr ()
   \<and> connection (snd (pass_disconnect env account_id db self)) = None"
  by (cases "connection (connect_monitor env db account_id self)")
    (simp_all add: pass_disconnect_def disconnect_def try_except_never_raises)

section \<open>The hybrid retrieval strategy\<close>

lemma info_email_id_extract: "info_email_id (extract_email_info m i) = i"
  by (simp add: extract_email_info_def Let_def)

lemma fetch_all_ids: "map info_email_id (fetch_all mb ids) = filter (fetched_ok mb) ids"
  by (induction ids) (auto simp: fetched_ok_def info_email_id_extract split: fetch_result.splits)

lemma py_last_pos: "0 < n \<Longrightarrow> py_last n xs = lastn (nat n) xs"
  by (simp add: py_last_def lastn_def)

lemma truncate_lastn:
  "0 < n \<Longrightarrow> (if int (length xs) > n then py_last n xs else xs) = lastn (nat n) xs"
  by (auto simp: py_last_pos lastn_def)

lemma map_lastn: "map f (lastn n xs) = lastn n (map f xs)"
  by (simp add: lastn_def drop_map)

lemma hybrid_eq:
  "2 \<le> max_emails \<Longrightarrow>
   get_recent_unread_emails mb days_back max_emails =
     (if select_raises mb then []
      else case search_ids (search mb (Crit_UNSEEN_SINCE days_back)) of
        None \<Rightarrow> []
      | Some unread \<Rightarrow>
          (case search_ids (search mb (Crit_SEEN_SINCE 2)) of
             None \<Rightarrow> []
           | Some read \<Rightarrow>
               lastn (nat max_emails)
                 (fetch_all mb unread
                  @ fetch_all mb (lastn (nat (max_emails div 2)) read))))"
proof -
  assume m: "2 \<le> max_emails"
  then have h: "0 < max_emails div 2" and p: "0 < max_emails" by simp_all
  have e: "lastn k ([]::string list) = []" for k by (simp add: lastn_def)
  show ?thesis
    by (auto simp: get_recent_unread_emails_def search_ids_def Let_def truncate_lastn [OF p]
        py_last_pos [OF h] e split: search_result.splits)
qed

lemma hybrid_ten_twenty:
  assumes "\<not> select_raises mb"
    and "search mb (Crit_UNSEEN_SINCE days_back) = Search_Status True unread"
    and "search mb (Crit_SEEN_SINCE 2) = Search_Status True read"
    and "length unread = 10" and "length read = 20"
    and "list_all (fetched_ok mb) (unread @ read)"
  shows "map info_email_id (get_recent_unread_emails mb days_back 12)
           = drop 4 unread @ drop 14 read"
proof -
  have "get_recent_unread_emails mb days_back 12
      = lastn 12 (fetch_all mb unread @ fetch_all mb (lastn 6 read))"
    using hybrid_eq [of 12 mb days_back] assms(1-3) by (simp add: search_ids_def)
  then have "map info_email_id (get_recent_unread_emails mb days_back 12)
      = lastn 12 (filter (fetched_ok mb) unread @ filter (fetched_ok mb) (lastn 6 read))"
    by (simp add: map_lastn fetch_all_ids)
  moreover have "filter (fetched_ok mb) unread = unread"
    using assms(6) by (simp add: list_all_iff)
  moreover have "filter (fetched_ok mb) (lastn 6 read) = lastn 6 read"
  proof (rule filter_True)
    show "\<forall>x\<in>set (lastn 6 read). fetched_ok mb x"
      using assms(6) by (auto simp: list_all_iff lastn_def dest: in_set_dropD)
  qed
  ultimately show ?thesis
    using assms(4,5) by (simp add: lastn_def)
qed

lemma hybrid_example_ids:
  "map info_email_id (get_recent_unread_emails hybrid_example_mailbox 7 12) =
     [''105'', ''106'', ''107'', ''108'', ''109'', ''110'',
      ''215'', ''216'', ''217'', ''218'', ''219'', ''220'']"
proof -
  have "list_all (fetched_ok hybrid_example_mailbox) (ten_unread @ twenty_read)"
    by (simp add: list_all_iff fetched_ok_def hybrid_example_mailbox_def)
  then have "map info_email_id (get_recent_unread_emails hybrid_example_mailbox 7 12)
      = drop 4 ten_unread @ drop 14 twenty_read"
    by (intro hybrid_ten_twenty)
      (simp_all add: hybrid_example_mailbox_def ten_unread_def twenty_read_def)
  then show ?thesis
    by (simp add: ten_unread_def twenty_read_def)
qed

text \<open>
  With a limit of 1 the cap on the read messages is \<open>1 // 2 = 0\<close>, and the slice
  \<open>read_email_ids[-0:]\<close> is the whole list: all read messages are fetched, and the one
  message returned is the last read one.
\<close>

lemma hybrid_limit_one_example:
  "map info_email_id (get_recent_unread_emails hybrid_example_mailbox 7 1) = [''220'']"
proof -
  have "get_recent_unread_emails hybrid_example_mailbox 7 1
      = lastn 1 (fetch_all hybrid_example_mailbox ten_unread
                 @ fetch_all hybrid_example_mailbox twenty_read)"
    by (simp add: get_recent_unread_emails_def hybrid_example_mailbox_def Let_def py_last_def
        lastn_def ten_unread_def twenty_read_def)
  then have "map info_email_id (get_recent_unread_emails hybrid_example_mailbox 7 1)
      = lastn 1 (filter (fetched_ok hybrid_example_mailbox) ten_unread
                 @ filter (fetched_ok hybrid_example_mailbox) twenty_read)"
    by (simp add: map_lastn fetch_all_ids)
  then show ?thesis
    by (simp add: lastn_def ten_unread_def twenty_read_def fetched_ok_def
        hybrid_example_mailbox_def)
qed

text \<open>
  Claim C2 as stated fails. With 10 unread and 20 read candidates and a limit of 12
  the strategy fetches the 10 unread and the last 6 read messages and keeps the last 12
  of these 16: of the messages returned, 6 are unread and 6 are read, not 10 and 2.
\<close>

theorem hybrid_example_six_unread_six_read:
  "length (get_recent_unread_emails hybrid_example_mailbox 7 12) = 12
   \<and> length (filter (\<lambda>i. i \<in> set ten_unread)
        (map info_email_id (get_recent_unread_emails hybrid_example_mailbox 7 12))) = 6
   \<and> length (filter (\<lambda>i. i \<in> set twenty_read)
        (map info_email_id (get_recent_unread_emails hybrid_example_mailbox 7 12))) = 6"
proof -
  have l: "length (get_recent_unread_emails hybrid_example_mailbox 7 12) = 12"
    using arg_cong [OF hybrid_example_ids, of length] by simp
  have u: "length (filter (\<lambda>i. i \<in> set ten_unread)
        (map info_email_id (get_recent_unread_emails hybrid_example_mailbox 7 12))) = 6"
    unfolding hybrid_example_ids by (simp add: ten_unread_def)
  have r: "length (filter (\<lambda>i. i \<in> set twenty_read)
        (map info_email_id (get_recent_unread_emails hybrid_example_mailbox 7 12))) = 6"
    unfolding hybrid_example_ids by (simp add: twenty_read_def)
  from l u r show ?thesis by (intro conjI)
qed

text \<open>
  Claim C2, as the code has it. For every mailbox and every limit of at least 2, when
  neither the selection of the inbox nor a search raises, the strategy returns the last
  \<open>limit\<close> entries of: the unread messages of the last 7 days that could be fetched,
  followed by those of the last \<open>limit div 2\<close> read messages of the last 2 days that
  could be fetched; and it returns nothing when a search raises. In particular, with 10
  unread and 20 read candidates, all fetched, and a limit of 12 it returns the last 6
  unread messages followed by the last 6 read messages.
\<close>

theorem hybrid_strategy:
  "(2 \<le> max_emails \<longrightarrow>
      get_recent_unread_emails mb days_back max_emails =
        (if select_raises mb then []
         else case search_ids (search mb (Crit_UNSEEN_SINCE days_back)) of
           None \<Rightarrow> []
         | Some unread \<Rightarrow>
             (case search_ids (search mb (Crit_SEEN_SINCE 2)) of
                None \<Rightarrow> []
              | Some read \<Rightarrow>
                  lastn (nat max_emails)
                    (fetch_all mb unread
                     @ fetch_all mb (lastn (nat (max_emails div 2)) read)))))
   \<and> (\<not> select_raises mb
        \<and> search mb (Crit_UNSEEN_SINCE days_back) = Search_Status True unread10
        \<and> search mb (Crit_SEEN_SINCE 2) = Search_Status True read20
        \<and> length unread10 = 10 \<and> length read20 = 20
        \<and> list_all (fetched_ok mb) (unread10 @ read20) \<longrightarrow>
      map info_email_id (get_recent_unread_emails mb days_back 12)
        = drop 4 unread10 @ drop 14 read20)"
  using hybrid_eq [of max_emails mb days_back] hybrid_ten_twenty [of mb days_back unread10 read20]
  by blast

theorem hybrid_strategy_witness:
  "(2::int) \<le> 12
   \<and> \<not> select_raises hybrid_example_mailbox
   \<and> length ten_unread = 10 \<and> length twenty_read = 20
   \<and> list_all (fetched_ok hybrid_example_mailbox) (ten_unread @ twenty_read)
   \<and> get_recent_unread_emails hybrid_example_mailbox 7 12
       = lastn 12 (fetch_all hybrid_example_mailbox ten_unread
                   @ fetch_all hybrid_example_mailbox (lastn 6 twenty_read))
   \<and> map info_email_id (get_recent_unread_emails hybrid_example_mailbox 7 12)
       = [''105'', ''106'', ''107'', ''108'', ''109'', ''110'',
      ''215'', ''216'', ''217'', ''218'', ''219'', ''220'']"
proof -
  have a: "\<not> select_raises hybrid_example_mailbox"
    and b: "search hybrid_example_mailbox (Crit_UNSEEN_SINCE 7) = Search_Status True ten_unread"
    and c: "search hybrid_example_mailbox (Crit_SEEN_SINCE 2) = Search_Status True twenty_read"
    by (simp_all add: hybrid_example_mailbox_def)
  have d: "length ten_unread = 10" "length twenty_read = 20"
    by (simp_all add: ten_unread_def twenty_read_def)
  have e: "list_all (fetched_ok hybrid_example_mailbox) (ten_unread @ twenty_read)"
    by (simp add: list_all_iff fetched_ok_def hybrid_example_mailbox_def)
  note h = hybrid_strategy [of 12 hybrid_example_mailbox 7 ten_unread twenty_read]
  have g: "get_recent_unread_emails hybrid_example_mailbox 7 12
       = lastn 12 (fetch_all hybrid_example_mailbox ten_unread
                   @ fetch_all hybrid_example_mailbox (lastn 6 twenty_read))"
    using h a b c by (simp add: search_ids_def)
  have "map info_email_id (get_recent_unread_emails hybrid_example_mailbox 7 12)
       = drop 4 ten_unread @ drop 14 twenty_read"
    using h a b c d e by blast
  then have i: "map info_email_id (get_recent_unread_emails hybrid_example_mailbox 7 12)
       = [''105'', ''106'', ''107'', ''108'', ''109'', ''110'',
      ''215'', ''216'', ''217'', ''218'', ''219'', ''220'']"
    by (simp add: ten_unread_def twenty_read_def)
  show ?thesis
    using a d e g i by simp
qed

section \<open>The store keeps one email per pair\<close>

lemma email_exists_iff:
  "email_exists db a i = ((a, i) \<in> set (map email_key (analyzed_emails db)))"
  by (auto simp: email_exists_def email_key_def list_ex_iff)

lemma store_existing:
  "email_exists db a (info_email_id e) \<Longrightarrow> store_email_in_database f a e r db = (False, db)"
  by (simp add: store_email_in_database_def)

lemma store_settled_noop:
  "settled f a e db \<Longrightarrow> store_email_in_database f a e r db = (False, db)"
  by (auto simp: settled_def store_email_in_database_def Let_def)

lemma store_accounts:
  "email_accounts (snd (store_email_in_database f a e r db)) = email_accounts db"
  by (simp add: store_email_in_database_def Let_def)

lemma store_rows:
  "analyzed_emails (snd (store_email_in_database f a e r db)) = analyzed_emails db
   \<or> (\<exists>row. analyzed_emails (snd (store_email_in_database f a e r db)) = analyzed_emails db @ [row]
        \<and> email_key row = (a, info_email_id e) \<and> row_is_spam row = is_spam r
        \<and> \<not> email_exists db a (info_email_id e))"
  by (simp add: store_email_in_database_def Let_def email_key_def)

lemma store_true_rows:
  "fst (store_email_in_database f a e r db) \<Longrightarrow>
   \<exists>row. analyzed_emails (snd (store_email_in_database f a e r db)) = analyzed_emails db @ [row]
        \<and> email_key row = (a, info_email_id e) \<and> row_is_spam row = is_spam r"
  by (simp add: store_email_in_database_def Let_def email_key_def split: if_splits)

lemma store_no_fault_rows:
  "f = No_Fault \<Longrightarrow> \<not> fst (store_email_in_database f a e r db) \<Longrightarrow>
   analyzed_emails (snd (store_email_in_database f a e r db)) = analyzed_emails db"
  by (simp add: store_email_in_database_def Let_def split: if_splits)

lemma store_unique:
  "unique_emails db \<Longrightarrow> unique_emails (snd (store_email_in_database f a e r db))"
  using store_rows [of f a e r db]
  by (auto simp: unique_emails_def email_exists_iff)

lemma store_mono:
  "email_exists db a' i' \<Longrightarrow> email_exists (snd (store_email_in_database f a e r db)) a' i'"
  using store_rows [of f a e r db]
  by (auto simp: email_exists_iff)

lemma store_settles:
  "settled f a e (snd (store_email_in_database f a e r db))"
  by (auto simp: settled_def store_email_in_database_def Let_def email_exists_def)

lemma settled_mono:
  "settled f' a' e' db \<Longrightarrow> settled f' a' e' (snd (store_email_in_database f a e r db))"
  using store_mono by (auto simp: settled_def)

section \<open>The loop over the fetched messages\<close>

lemma process_each_Cons:
  "process_each faults i a (e # es) st =
     process_each faults (Suc i) a es
       (if fst (store_email_in_database (faults i) a e (analyze_email_spam e) (ls_db st))
        then \<lparr> ls_db = snd (store_email_in_database (faults i) a e (analyze_email_spam e) (ls_db st)),
               ls_processed_emails = ls_processed_emails st @
                 [\<lparr> pe_subject = info_subject e, pe_sender = info_sender e,
                    pe_is_spam = is_spam (analyze_email_spam e),
                    pe_confidence = confidence (analyze_email_spam e),
                    pe_spam_score = spam_score (analyze_email_spam e) \<rparr>],
               ls_spam_count = (if is_spam (analyze_email_spam e)
                                then ls_spam_count st + 1 else ls_spam_count st),
               ls_ham_count = (if is_spam (analyze_email_spam e)
                               then ls_ham_count st else ls_ham_count st + 1) \<rparr>
        else st\<lparr> ls_db := snd (store_email_in_database (faults i) a e (analyze_email_spam e) (ls_db st)) \<rparr>)"
  by (simp add: Let_def case_prod_beta)

declare process_each.simps(2) [simp del]

lemma process_each_accounts:
  "email_accounts (ls_db (process_each faults i a es st)) = email_accounts (ls_db st)"
proof (induction es arbitrary: i st)
  case Nil
  then show ?case by simp
next
  case (Cons e es)
  show ?case
    using store_accounts [of "faults i" a e "analyze_email_spam e" "ls_db st"]
    by (simp add: process_each_Cons Cons.IH)
qed

lemma process_each_unique:
  "unique_emails (ls_db st) \<Longrightarrow> unique_emails (ls_db (process_each faults i a es st))"
proof (induction es arbitrary: i st)
  case Nil
  then show ?case by simp
next
  case (Cons e es)
  have "unique_emails (snd (store_email_in_database (faults i) a e (analyze_email_spam e) (ls_db st)))"
    using Cons.prems by (rule store_unique)
  then show ?case
    by (auto simp: process_each_Cons intro!: Cons.IH)
qed

lemma process_each_mono:
  "email_exists (ls_db st) a' i' \<Longrightarrow> email_exists (ls_db (process_each faults i a es st)) a' i'"
proof (induction es arbitrary: i st)
  case Nil
  then show ?case by simp
next
  case (Cons e es)
  have "email_exists (snd (store_email_in_database (faults i) a e (analyze_email_spam e) (ls_db st))) a' i'"
    using Cons.prems by (rule store_mono)
  then show ?case
    by (auto simp: process_each_Cons intro!: Cons.IH)
qed

lemma process_each_settled_mono:
  "settled f' a' e' (ls_db st) \<Longrightarrow> settled f' a' e' (ls_db (process_each faults i a es st))"
  using process_each_mono by (auto simp: settled_def)

lemma process_each_settles:
  "j < length es \<Longrightarrow> settled (faults (i + j)) a (es ! j) (ls_db (process_each faults i a es st))"
proof (induction es arbitrary: i j st)
  case Nil
  then show ?case by simp
next
  case (Cons e es)
  let ?s = "store_email_in_database (faults i) a e (analyze_email_spam e) (ls_db st)"
  show ?case
  proof (cases j)
    case 0
    have "settled (faults i) a e (snd ?s)" by (rule store_settles)
    then show ?thesis
      using 0 by (auto simp: process_each_Cons intro!: process_each_settled_mono)
  next
    case (Suc k)
    then have "k < length es" using Cons.prems by simp
    from Cons.IH [OF this, of "Suc i"] show ?thesis
      using Suc by (simp add: process_each_Cons)
  qed
qed

lemma process_each_noop:
  "(\<And>j. j < length es \<Longrightarrow> settled (faults (i + j)) a (es ! j) (ls_db st)) \<Longrightarrow>
   process_each faults i a es st = st"
proof (induction es arbitrary: i st)
  case Nil
  then show ?case by simp
next
  case (Cons e es)
  have s0: "settled (faults i) a e (ls_db st)"
    using Cons.prems [of 0] by simp
  have rest: "settled (faults (Suc i + j)) a (es ! j) (ls_db st)" if "j < length es" for j
    using Cons.prems [of "Suc j"] that by simp
  show ?case
    using store_settled_noop [OF s0] Cons.IH [of "Suc i" st, OF rest]
    by (simp add: process_each_Cons)
qed

text \<open>
  What the loop counts against what it inserts: each counted message is a new row.
\<close>

lemma process_each_counts:
  "length (ls_processed_emails (process_each faults i a es st)) + length (analyzed_emails (ls_db st))
     \<le> length (analyzed_emails (ls_db (process_each faults i a es st))) + length (ls_processed_emails st)
   \<and> ls_spam_count (process_each faults i a es st) + spam_rows (ls_db st)
     \<le> spam_rows (ls_db (process_each faults i a es st)) + ls_spam_count st
   \<and> ls_spam_count (process_each faults i a es st) + ls_ham_count (process_each faults i a es st)
        + length (ls_processed_emails st)
     = length (ls_processed_emails (process_each faults i a es st)) + ls_spam_count st + ls_ham_count st"
proof (induction es arbitrary: i st)
  case Nil
  then show ?case by simp
next
  case (Cons e es)
  let ?r = "analyze_email_spam e"
  let ?s = "store_email_in_database (faults i) a e ?r (ls_db st)"
  show ?case
  proof (cases "fst ?s")
    case True
    from store_true_rows [OF True] obtain row where
      row: "analyzed_emails (snd ?s) = analyzed_emails (ls_db st) @ [row]" "row_is_spam row = is_spam ?r"
      by blast
    let ?st = "\<lparr> ls_db = snd ?s,
                 ls_processed_emails = ls_processed_emails st @
                   [\<lparr> pe_subject = info_subject e, pe_sender = info_sender e,
                      pe_is_spam = is_spam ?r, pe_confidence = confidence ?r,
                      pe_spam_score = spam_score ?r \<rparr>],
                 ls_spam_count = (if is_spam ?r then ls_spam_count st + 1 else ls_spam_count st),
                 ls_ham_count = (if is_spam ?r then ls_ham_count st else ls_ham_count st + 1) \<rparr>"
    have step: "process_each faults i a (e # es) st = process_each faults (Suc i) a es ?st"
      using True by (simp add: process_each_Cons)
    show ?thesis
      unfolding step using Cons.IH [of "Suc i" ?st] row
      by (auto simp: spam_rows_def)
  next
    case False
    let ?st = "st\<lparr> ls_db := snd ?s \<rparr>"
    have step: "process_each faults i a (e # es) st = process_each faults (Suc i) a es ?st"
      using False by (simp add: process_each_Cons)
    have "length (analyzed_emails (ls_db st)) \<le> length (analyzed_emails (snd ?s))"
      and "spam_rows (ls_db st) \<le> spam_rows (snd ?s)"
      using store_rows [of "faults i" a e ?r "ls_db st"] by (auto simp: spam_rows_def)
    then show ?thesis
      unfolding step using Cons.IH [of "Suc i" ?st] by simp
  qed
qed

lemma process_each_counts_no_fault:
  "(\<And>j. j < length es \<Longrightarrow> faults (i + j) = No_Fault) \<Longrightarrow>
   length (ls_processed_emails (process_each faults i a es st)) + length (analyzed_emails (ls_db st))
     = length (analyzed_emails (ls_db (process_each faults i a es st))) + length (ls_processed_emails st)
   \<and> ls_spam_count (process_each faults i a es st) + spam_rows (ls_db st)
     = spam_rows (ls_db (process_each faults i a es st)) + ls_spam_count st"
proof (induction es arbitrary: i st)
  case Nil
  then show ?case by simp
next
  case (Cons e es)
  let ?r = "analyze_email_spam e"
  let ?s = "store_email_in_database (faults i) a e ?r (ls_db st)"
  have f0: "faults i = No_Fault" using Cons.prems [of 0] by simp
  have rest: "faults (Suc i + j) = No_Fault" if "j < length es" for j
    using Cons.prems [of "Suc j"] that by simp
  show ?case
  proof (cases "fst ?s")
    case True
    from store_true_rows [OF True] obtain row where
      row: "analyzed_emails (snd ?s) = analyzed_emails (ls_db st) @ [row]" "row_is_spam row = is_spam ?r"
      by blast
    let ?st = "\<lparr> ls_db = snd ?s,
                 ls_processed_emails = ls_processed_emails st @
                   [\<lparr> pe_subject = info_subject e, pe_sender = info_sender e,
                      pe_is_spam = is_spam ?r, pe_confidence = confidence ?r,
                      pe_spam_score = spam_score ?r \<rparr>],
                 ls_spam_count = (if is_spam ?r then ls_spam_count st + 1 else ls_spam_count st),
                 ls_ham_count = (if is_spam ?r then ls_ham_count st else ls_ham_count st + 1) \<rparr>"
    have step: "process_each faults i a (e # es) st = process_each faults (Suc i) a es ?st"
      using True by (simp add: process_each_Cons)
    show ?thesis
      unfolding step using Cons.IH [of "Suc i" ?st, OF rest] row
      by (auto simp: spam_rows_def)
  next
    case False
    let ?st = "st\<lparr> ls_db := snd ?s \<rparr>"
    have step: "process_each faults i a (e # es) st = process_each faults (Suc i) a es ?st"
      using False by (simp add: process_each_Cons)
    have "analyzed_emails (snd ?s) = analyzed_emails (ls_db st)"
      using store_no_fault_rows [OF f0 False] .
    then show ?thesis
      unfolding step using Cons.IH [of "Suc i" ?st, OF rest] by (simp add: spam_rows_def)
  qed
qed

section \<open>The pass\<close>

lemma update_analyzed:
  "analyzed_emails (update_account_statistics fault now a p s db) = analyzed_emails db"
  by (simp add: update_account_statistics_def)

lemma update_account_ids:
  "map acc_id (email_accounts (update_account_statistics fault now a p s db))
     = map acc_id (email_accounts db)"
  by (simp add: update_account_statistics_def)

lemma update_accounts:
  "email_accounts (update_account_statistics fault now a (int p) (int s) db)
     = (if fault then email_accounts db
        else map (credit_account now a p s) (email_accounts db))"
  by (simp add: update_account_statistics_def credit_account_def)

lemma connect_ids:
  "map acc_id (email_accounts db') = map acc_id (email_accounts db) \<Longrightarrow>
   connect_to_server env db' a = connect_to_server env db a"
proof -
  assume "map acc_id (email_accounts db') = map acc_id (email_accounts db)"
  then have "set (map acc_id (email_accounts db')) = set (map acc_id (email_accounts db))"
    by simp
  then have "list_ex (\<lambda>x. acc_id x = a) (email_accounts db')
      = list_ex (\<lambda>x. acc_id x = a) (email_accounts db)"
    unfolding list_ex_iff by (metis (mono_tags, lifting) image_iff list.set_map)
  then show ?thesis by (simp add: connect_to_server_def)
qed

lemma pass_not_connected:
  "\<not> connect_to_server env db a \<Longrightarrow>
   snd (process_account_emails env a m ga gr db) = db
   \<and> \<not> success (fst (process_account_emails env a m ga gr db))
   \<and> emails_processed (fst (process_account_emails env a m ga gr db)) = 0
   \<and> spam_detected (fst (process_account_emails env a m ga gr db)) = 0
   \<and> ham_detected (fst (process_account_emails env a m ga gr db)) = 0"
  by (simp add: process_account_emails_def Let_def)

lemma pass_nothing_fetched:
  "connect_to_server env db a \<Longrightarrow> fetch_emails (env_mailbox env) m ga gr = [] \<Longrightarrow>
   snd (process_account_emails env a m ga gr db) = db
   \<and> success (fst (process_account_emails env a m ga gr db))
   \<and> emails_processed (fst (process_account_emails env a m ga gr db)) = 0
   \<and> spam_detected (fst (process_account_emails env a m ga gr db)) = 0
   \<and> ham_detected (fst (process_account_emails env a m ga gr db)) = 0"
  by (simp add: process_account_emails_def Let_def)

lemma pass_unchanged:
  "\<not> (connect_to_server env db a \<and> fetch_emails (env_mailbox env) m ga gr \<noteq> []) \<Longrightarrow>
   snd (process_account_emails env a m ga gr db) = db
   \<and> emails_processed (fst (process_account_emails env a m ga gr db)) = 0
   \<and> spam_detected (fst (process_account_emails env a m ga gr db)) = 0
   \<and> ham_detected (fst (process_account_emails env a m ga gr db)) = 0"
  by (auto simp: process_account_emails_def Let_def)

lemma pass_processed:
  "connect_to_server env db a \<Longrightarrow> fetch_emails (env_mailbox env) m ga gr \<noteq> [] \<Longrightarrow>
   st = process_each (env_store_fault env) 0 a (fetch_emails (env_mailbox env) m ga gr)
          (initial_loop_state db) \<Longrightarrow>
   snd (process_account_emails env a m ga gr db)
     = update_account_statistics (env_update_fault env) (env_current_timestamp env) a
         (int (length (ls_processed_emails st))) (int (ls_spam_count st)) (ls_db st)
   \<and> success (fst (process_account_emails env a m ga gr db))
   \<and> emails_processed (fst (process_account_emails env a m ga gr db))
       = length (ls_processed_emails st)
   \<and> spam_detected (fst (process_account_emails env a m ga gr db)) = ls_spam_count st
   \<and> ham_detected (fst (process_account_emails env a m ga gr db)) = ls_ham_count st"
  by (simp add: process_account_emails_def Let_def initial_loop_state_def)

lemma pass_success: "success (fst (process_account_emails env a m ga gr db)) = connect_to_server env db a"
  by (simp add: process_account_emails_def Let_def)

lemma pass_account_ids:
  "map acc_id (email_accounts (snd (process_account_emails env a m ga gr db)))
     = map acc_id (email_accounts db)"
proof (cases "connect_to_server env db a \<and> fetch_emails (env_mailbox env) m ga gr \<noteq> []")
  case True
  then show ?thesis
    using pass_processed [OF _ _ refl, of env db a m ga gr]
    by (simp add: update_account_ids process_each_accounts initial_loop_state_def)
next
  case False
  from pass_unchanged [OF False] show ?thesis by simp
qed

lemma pass_unique:
  "unique_emails db \<Longrightarrow> unique_emails (snd (process_account_emails env a m ga gr db))"
proof (cases "connect_to_server env db a \<and> fetch_emails (env_mailbox env) m ga gr \<noteq> []")
  case True
  assume u: "unique_emails db"
  have "unique_emails (ls_db (process_each (env_store_fault env) 0 a
      (fetch_emails (env_mailbox env) m ga gr) (initial_loop_state db)))"
    by (rule process_each_unique) (simp add: initial_loop_state_def u)
  then show ?thesis
    using True pass_processed [OF _ _ refl, of env db a m ga gr]
    by (simp add: unique_emails_def update_analyzed)
next
  case False
  assume "unique_emails db"
  then show ?thesis
    using pass_unchanged [OF False] by simp
qed

text \<open>After a pass, every fetched message is settled for the fault its store call met.\<close>

lemma pass_settles:
  assumes "connect_to_server env db a" "j < length (fetch_emails (env_mailbox env) m ga gr)"
  shows "settled (env_store_fault env j) a (fetch_emails (env_mailbox env) m ga gr ! j)
           (snd (process_account_emails env a m ga gr db))"
proof -
  let ?es = "fetch_emails (env_mailbox env) m ga gr"
  let ?st = "process_each (env_store_fault env) 0 a ?es (initial_loop_state db)"
  have ne: "?es \<noteq> []" using assms(2) by auto
  have "settled (env_store_fault env (0 + j)) a (?es ! j) (ls_db ?st)"
    using assms(2) by (rule process_each_settles)
  then show ?thesis
    using pass_processed [OF assms(1) ne refl]
    by (simp add: settled_def email_exists_def update_analyzed)
qed

lemma pass_noop:
  assumes "\<And>j. j < length (fetch_emails (env_mailbox env) m ga gr) \<Longrightarrow>
             settled (env_store_fault env j) a (fetch_emails (env_mailbox env) m ga gr ! j) db"
  shows "analyzed_emails (snd (process_account_emails env a m ga gr db)) = analyzed_emails db
         \<and> email_features (snd (process_account_emails env a m ga gr db)) = email_features db
         \<and> emails_processed (fst (process_account_emails env a m ga gr db)) = 0
         \<and> spam_detected (fst (process_account_emails env a m ga gr db)) = 0
         \<and> map acc_total_emails_checked (email_accounts (snd (process_account_emails env a m ga gr db)))
             = map acc_total_emails_checked (email_accounts db)
         \<and> map acc_total_spam_detected (email_accounts (snd (process_account_emails env a m ga gr db)))
             = map acc_total_spam_detected (email_accounts db)"
proof (cases "connect_to_server env db a \<and> fetch_emails (env_mailbox env) m ga gr \<noteq> []")
  case True
  let ?es = "fetch_emails (env_mailbox env) m ga gr"
  have "process_each (env_store_fault env) 0 a ?es (initial_loop_state db) = initial_loop_state db"
    by (rule process_each_noop) (simp add: initial_loop_state_def assms)
  then show ?thesis
    using True pass_processed [OF _ _ refl, of env db a m ga gr]
    by (simp add: initial_loop_state_def update_account_statistics_def comp_def)
next
  case False
  from pass_unchanged [OF False] show ?thesis by simp
qed

lemma exists_settled: "email_exists db a (info_email_id e) \<Longrightarrow> settled f a e db"
  by (simp add: settled_def)

lemma settled_no_fault: "settled No_Fault a e db \<Longrightarrow> email_exists db a (info_email_id e)"
  by (simp add: settled_def)

lemma settled_analyzed:
  "analyzed_emails db' = analyzed_emails db \<Longrightarrow> settled f a e db' = settled f a e db"
  by (simp add: settled_def email_exists_def)

lemma pass_twice_same_env:
  "analyzed_emails (snd (process_account_emails env a m ga gr
       (snd (process_account_emails env a m ga gr db))))
     = analyzed_emails (snd (process_account_emails env a m ga gr db))
   \<and> emails_processed (fst (process_account_emails env a m ga gr
       (snd (process_account_emails env a m ga gr db)))) = 0"
proof (cases "connect_to_server env db a")
  case True
  let ?db1 = "snd (process_account_emails env a m ga gr db)"
  have "settled (env_store_fault env j) a (fetch_emails (env_mailbox env) m ga gr ! j) ?db1"
    if "j < length (fetch_emails (env_mailbox env) m ga gr)" for j
    using True that by (rule pass_settles)
  from pass_noop [of env m ga gr a ?db1, OF this] show ?thesis by simp
next
  case False
  then have d: "snd (process_account_emails env a m ga gr db) = db"
    using pass_not_connected by blast
  show ?thesis
    unfolding d using pass_not_connected [OF False, of m ga gr] by simp
qed

lemma pass_twice_other_env:
  assumes "env_mailbox env2 = env_mailbox env" "success (fst (process_account_emails env a m ga gr db))"
    "\<forall>j. env_store_fault env j = No_Fault"
  shows "analyzed_emails (snd (process_account_emails env2 a m ga gr
       (snd (process_account_emails env a m ga gr db))))
     = analyzed_emails (snd (process_account_emails env a m ga gr db))
   \<and> emails_processed (fst (process_account_emails env2 a m ga gr
       (snd (process_account_emails env a m ga gr db)))) = 0"
proof -
  let ?db1 = "snd (process_account_emails env a m ga gr db)"
  have c: "connect_to_server env db a" using assms(2) by (simp add: pass_success)
  have "settled (env_store_fault env2 j) a (fetch_emails (env_mailbox env2) m ga gr ! j) ?db1"
    if "j < length (fetch_emails (env_mailbox env2) m ga gr)" for j
  proof -
    have "settled (env_store_fault env j) a (fetch_emails (env_mailbox env) m ga gr ! j) ?db1"
      using c that assms(1) by (intro pass_settles) simp_all
    then show ?thesis
      using assms(1,3) by (auto intro: exists_settled dest: settled_no_fault)
  qed
  from pass_noop [of env2 m ga gr a ?db1, OF this] show ?thesis by simp
qed

lemma store_sequence_unique:
  "unique_emails db \<Longrightarrow> unique_emails (store_sequence ops db)"
proof (induction ops arbitrary: db)
  case Nil
  then show ?case by (simp add: store_sequence_def)
next
  case (Cons op ops)
  obtain f a e r where op: "op = (f, a, e, r)" by (cases op) auto
  have "unique_emails (snd (store_email_in_database f a e r db))"
    using Cons.prems by (rule store_unique)
  from Cons.IH [OF this] show ?case
    by (simp add: store_sequence_def op)
qed

lemma distinct_map_filter_le1:
  "distinct (map f xs) \<Longrightarrow> length (filter (\<lambda>x. f x = k) xs) \<le> 1"
proof (induction xs)
  case Nil
  then show ?case by simp
next
  case (Cons x xs)
  show ?case
  proof (cases "f x = k")
    case True
    then have "\<forall>y\<in>set xs. f y \<noteq> k" using Cons.prems by (auto simp: image_iff)
    then have "filter (\<lambda>x. f x = k) xs = []" by (simp add: filter_empty_conv)
    then show ?thesis using True by simp
  next
    case False
    then show ?thesis using Cons by simp
  qed
qed

lemma unique_stored_count:
  "unique_emails db \<Longrightarrow> stored_count db a i \<le> 1"
proof -
  assume "unique_emails db"
  then have d: "distinct (map email_key (analyzed_emails db))"
    by (simp add: unique_emails_def)
  have "stored_count db a i = length (filter (\<lambda>r. email_key r = (a, i)) (analyzed_emails db))"
    by (simp add: stored_count_def email_key_def)
  then show ?thesis
    using distinct_map_filter_le1 [OF d, of "(a, i)"] by simp
qed

lemma pass_credit:
  assumes "connect_to_server env db a" "fetch_emails (env_mailbox env) m ga gr \<noteq> []"
    "\<not> env_update_fault env"
  shows "email_accounts (snd (process_account_emails env a m ga gr db))
     = map (credit_account (env_current_timestamp env) a
              (emails_processed (fst (process_account_emails env a m ga gr db)))
              (spam_detected (fst (process_account_emails env a m ga gr db))))
         (email_accounts db)"
  using pass_processed [OF assms(1,2) refl] assms(3)
  by (simp add: update_accounts process_each_accounts initial_loop_state_def)

lemma pass_accounts_cases:
  "email_accounts (snd (process_account_emails env a m ga gr db)) = email_accounts db
   \<or> email_accounts (snd (process_account_emails env a m ga gr db))
     = map (credit_account (env_current_timestamp env) a
              (emails_processed (fst (process_account_emails env a m ga gr db)))
              (spam_detected (fst (process_account_emails env a m ga gr db))))
         (email_accounts db)"
proof (cases "connect_to_server env db a \<and> fetch_emails (env_mailbox env) m ga gr \<noteq> []")
  case True
  show ?thesis
  proof (cases "env_update_fault env")
    case f: True
    then show ?thesis
      using True pass_processed [OF _ _ refl, of env db a m ga gr]
      by (simp add: update_accounts process_each_accounts initial_loop_state_def)
  next
    case False
    then show ?thesis using True pass_credit by blast
  qed
next
  case False
  from pass_unchanged [OF False] show ?thesis by simp
qed

lemma pass_counts:
  "length (analyzed_emails db) + emails_processed (fst (process_account_emails env a m ga gr db))
     \<le> length (analyzed_emails (snd (process_account_emails env a m ga gr db)))
   \<and> spam_rows db + spam_detected (fst (process_account_emails env a m ga gr db))
     \<le> spam_rows (snd (process_account_emails env a m ga gr db))
   \<and> spam_detected (fst (process_account_emails env a m ga gr db))
       + ham_detected (fst (process_account_emails env a m ga gr db))
     = emails_processed (fst (process_account_emails env a m ga gr db))"
proof (cases "connect_to_server env db a \<and> fetch_emails (env_mailbox env) m ga gr \<noteq> []")
  case True
  show ?thesis
    using True pass_processed [OF _ _ refl, of env db a m ga gr]
      process_each_counts [of "env_store_fault env" 0 a "fetch_emails (env_mailbox env) m ga gr"
        "initial_loop_state db"]
    by (simp add: initial_loop_state_def update_analyzed spam_rows_def)
next
  case False
  from pass_unchanged [OF False] show ?thesis by simp
qed

lemma pass_counts_no_fault:
  assumes "\<forall>j. env_store_fault env j = No_Fault"
  shows "length (analyzed_emails db) + emails_processed (fst (process_account_emails env a m ga gr db))
     = length (analyzed_emails (snd (process_account_emails env a m ga gr db)))
   \<and> spam_rows db + spam_detected (fst (process_account_emails env a m ga gr db))
     = spam_rows (snd (process_account_emails env a m ga gr db))"
proof (cases "connect_to_server env db a \<and> fetch_emails (env_mailbox env) m ga gr \<noteq> []")
  case True
  have nf: "env_store_fault env (0 + j) = No_Fault" for j using assms by simp
  show ?thesis
    using True pass_processed [OF _ _ refl, of env db a m ga gr]
      process_each_counts_no_fault [of "fetch_emails (env_mailbox env) m ga gr"
        "env_store_fault env" 0 a "initial_loop_state db", OF nf]
    by (simp add: initial_loop_state_def update_analyzed spam_rows_def)
next
  case False
  from pass_unchanged [OF False] show ?thesis by simp
qed

lemma pass_all_stored:
  assumes "list_all (\<lambda>e. email_exists db a (info_email_id e)) (fetch_emails (env_mailbox env) m ga gr)"
  shows "emails_processed (fst (process_account_emails env a m ga gr db)) = 0
         \<and> spam_detected (fst (process_account_emails env a m ga gr db)) = 0
         \<and> analyzed_emails (snd (process_account_emails env a m ga gr db)) = analyzed_emails db
         \<and> map acc_total_emails_checked (email_accounts (snd (process_account_emails env a m ga gr db)))
             = map acc_total_emails_checked (email_accounts db)
         \<and> map acc_total_spam_detected (email_accounts (snd (process_account_emails env a m ga gr db)))
             = map acc_total_spam_detected (email_accounts db)"
proof -
  have "settled (env_store_fault env j) a (fetch_emails (env_mailbox env) m ga gr ! j) db"
    if "j < length (fetch_emails (env_mailbox env) m ga gr)" for j
    using assms that by (auto simp: list_all_length intro: exists_settled)
  from pass_noop [of env m ga gr a db, OF this] show ?thesis by simp
qed

lemma pass_stores_all:
  assumes "connect_to_server env db a" "\<forall>j. env_store_fault env j = No_Fault"
  shows "list_all (\<lambda>e. email_exists (snd (process_account_emails env a m ga gr db)) a (info_email_id e))
           (fetch_emails (env_mailbox env) m ga gr)"
  unfolding list_all_length
proof (intro allI impI)
  fix j assume "j < length (fetch_emails (env_mailbox env) m ga gr)"
  from pass_settles [OF assms(1) this] assms(2)
  show "email_exists (snd (process_account_emails env a m ga gr db)) a
          (info_email_id (fetch_emails (env_mailbox env) m ga gr ! j))"
    by (auto dest: settled_no_fault)
qed

text \<open>The example pass.\<close>

lemma example_connects: "connect_to_server example_env example_db 1"
  by (simp add: connect_to_server_def example_env_def example_db_def example_account_def)


section \<open>Deduplication, statistics and counters\<close>

text \<open>
  Claim C1. (1) When a row with the pair (account id, message id) exists,
  \<open>store_email_in_database\<close> returns False and leaves the database as it is, whatever
  fault it meets. (2) Stores keep the dedup invariant: from a database that has it, and
  so from the empty table, any sequence of store operations, and any pass, leads to a
  database in which every pair has at most one stored email. (3) A pass run a second
  time in the same environment (the same mailbox, the same faults) inserts no row and
  counts no message; the same holds for a second pass in any environment with the same
  mailbox when the first pass connected and met no fault of the store.
\<close>

theorem store_dedup_and_idempotence:
  "(email_exists db a (info_email_id e) \<longrightarrow> store_email_in_database f a e r db = (False, db))
   \<and> (unique_emails db \<longrightarrow>
        unique_emails (store_sequence ops db)
        \<and> stored_count (store_sequence ops db) a' i' \<le> 1
        \<and> unique_emails (snd (process_account_emails env a m ga gr db)))
   \<and> (analyzed_emails db = [] \<longrightarrow> stored_count (store_sequence ops db) a' i' \<le> 1)
   \<and> analyzed_emails (snd (process_account_emails env a m ga gr
         (snd (process_account_emails env a m ga gr db))))
       = analyzed_emails (snd (process_account_emails env a m ga gr db))
   \<and> emails_processed (fst (process_account_emails env a m ga gr
         (snd (process_account_emails env a m ga gr db)))) = 0
   \<and> (env_mailbox env2 = env_mailbox env
        \<and> success (fst (process_account_emails env a m ga gr db))
        \<and> (\<forall>j. env_store_fault env j = No_Fault) \<longrightarrow>
        analyzed_emails (snd (process_account_emails env2 a m ga gr
          (snd (process_account_emails env a m ga gr db))))
        = analyzed_emails (snd (process_account_emails env a m ga gr db))
        \<and> emails_processed (fst (process_account_emails env2 a m ga gr
          (snd (process_account_emails env a m ga gr db)))) = 0)"
proof -
  have e: "unique_emails db" if "analyzed_emails db = []"
    using that by (simp add: unique_emails_def)
  show ?thesis
    using store_existing [of db a e f r] store_sequence_unique [of db ops]
      unique_stored_count [of "store_sequence ops db" a' i'] pass_unique [of db env a m ga gr]
      pass_twice_same_env [of env a m ga gr db] pass_twice_other_env [of env2 env a m ga gr db] e
    by (intro conjI impI) blast+
qed

lemma stored_example_exists:
  "email_exists stored_example_db 1 (info_email_id full_trigger_info)"
  using store_settles [of No_Fault 1 full_trigger_info "analyze_email_spam full_trigger_info" example_db]
  by (simp add: stored_example_db_def settled_def)

lemma stored_example_unique: "unique_emails stored_example_db"
  unfolding stored_example_db_def
  by (rule store_unique) (simp add: unique_emails_def example_db_def)

lemma stored_example_connects: "connect_to_server example_env stored_example_db 1"
  using example_connects
  by (simp add: connect_to_server_def stored_example_db_def store_accounts)

theorem store_dedup_and_idempotence_witness:
  "email_exists stored_example_db 1 (info_email_id full_trigger_info)
   \<and> store_email_in_database No_Fault 1 full_trigger_info (analyze_email_spam full_trigger_info)
       stored_example_db = (False, stored_example_db)
   \<and> unique_emails stored_example_db
   \<and> stored_count (store_sequence [(No_Fault, 1, full_trigger_info, analyze_email_spam full_trigger_info)]
        stored_example_db) 1 ''1'' \<le> 1
   \<and> success (fst (process_account_emails example_env 1 50 False False stored_example_db))
   \<and> (\<forall>j. env_store_fault example_env j = No_Fault)
   \<and> analyzed_emails (snd (process_account_emails example_env 1 50 False False
         (snd (process_account_emails example_env 1 50 False False stored_example_db))))
       = analyzed_emails (snd (process_account_emails example_env 1 50 False False stored_example_db))"
proof -
  have nf: "\<forall>j. env_store_fault example_env j = No_Fault"
    by (simp add: example_env_def)
  have s: "success (fst (process_account_emails example_env 1 50 False False stored_example_db))"
    by (simp add: pass_success stored_example_connects)
  show ?thesis
    using store_dedup_and_idempotence [of stored_example_db 1 full_trigger_info No_Fault
        "analyze_email_spam full_trigger_info"
        "[(No_Fault, 1, full_trigger_info, analyze_email_spam full_trigger_info)]" 1 "''1''"
        example_env 50 False False example_env]
      stored_example_exists stored_example_unique nf s
    by blast
qed





lemma credit_totals:
  "acc_total_emails_checked (credit_account now a p s acc)
     = (if acc_id acc = a then acc_total_emails_checked acc + int p
        else acc_total_emails_checked acc)"
  "acc_total_spam_detected (credit_account now a p s acc)
     = (if acc_id acc = a then acc_total_spam_detected acc + int s
        else acc_total_spam_detected acc)"
  by (simp_all add: credit_account_def)

lemma pass_totals:
  assumes "\<not> env_update_fault env"
  shows "map acc_total_emails_checked (email_accounts (snd (process_account_emails env a m ga gr db)))
     = map (\<lambda>acc. if acc_id acc = a
                   then acc_total_emails_checked acc
                        + int (emails_processed (fst (process_account_emails env a m ga gr db)))
                   else acc_total_emails_checked acc)
         (email_accounts db)
   \<and> map acc_total_spam_detected (email_accounts (snd (process_account_emails env a m ga gr db)))
     = map (\<lambda>acc. if acc_id acc = a
                   then acc_total_spam_detected acc
                        + int (spam_detected (fst (process_account_emails env a m ga gr db)))
                   else acc_total_spam_detected acc)
         (email_accounts db)"
proof (cases "connect_to_server env db a \<and> fetch_emails (env_mailbox env) m ga gr \<noteq> []")
  case True
  then have "email_accounts (snd (process_account_emails env a m ga gr db))
     = map (credit_account (env_current_timestamp env) a
              (emails_processed (fst (process_account_emails env a m ga gr db)))
              (spam_detected (fst (process_account_emails env a m ga gr db))))
         (email_accounts db)"
    using assms pass_credit by blast
  then show ?thesis
    by (simp add: comp_def credit_totals)
next
  case False
  from pass_unchanged [OF False] show ?thesis
    by (simp add: map_idI)
qed

text \<open>
  Claim C10. In every pass the reported \<open>emails_processed\<close> and \<open>spam_detected\<close> are
  at most the numbers of rows, and of spam rows, that the pass inserted, and equal to
  them when the store meets no fault; spam and ham add up to the processed messages.
  When the statistics update does not raise, the cumulative counters of the account
  grow by exactly the reported numbers, and those of the other accounts do not change.
  When every fetched message is already stored for the account, the pass reports 0
  processed and 0 spam, inserts nothing, and leaves both cumulative counters of every
  account as they were.
\<close>

theorem counters_count_new_rows:
  "length (analyzed_emails db) + emails_processed (fst (process_account_emails env a m ga gr db))
     \<le> length (analyzed_emails (snd (process_account_emails env a m ga gr db)))
   \<and> spam_rows db + spam_detected (fst (process_account_emails env a m ga gr db))
     \<le> spam_rows (snd (process_account_emails env a m ga gr db))
   \<and> spam_detected (fst (process_account_emails env a m ga gr db))
       + ham_detected (fst (process_account_emails env a m ga gr db))
     = emails_processed (fst (process_account_emails env a m ga gr db))
   \<and> ((\<forall>j. env_store_fault env j = No_Fault) \<longrightarrow>
        length (analyzed_emails db) + emails_processed (fst (process_account_emails env a m ga gr db))
          = length (analyzed_emails (snd (process_account_emails env a m ga gr db)))
        \<and> spam_rows db + spam_detected (fst (process_account_emails env a m ga gr db))
          = spam_rows (snd (process_account_emails env a m ga gr db)))
   \<and> (\<not> env_update_fault env \<longrightarrow>
        map acc_total_emails_checked
            (email_accounts (snd (process_account_emails env a m ga gr db)))
          = map (\<lambda>acc. if acc_id acc = a
                        then acc_total_emails_checked acc
                             + int (emails_processed (fst (process_account_emails env a m ga gr db)))
                        else acc_total_emails_checked acc)
              (email_accounts db)
        \<and> map acc_total_spam_detected
            (email_accounts (snd (process_account_emails env a m ga gr db)))
          = map (\<lambda>acc. if acc_id acc = a
                        then acc_total_spam_detected acc
                             + int (spam_detected (fst (process_account_emails env a m ga gr db)))
                        else acc_total_spam_detected acc)
              (email_accounts db))
   \<and> (list_all (\<lambda>e. email_exists db a (info_email_id e)) (fetch_emails (env_mailbox env) m ga gr) \<longrightarrow>
        emails_processed (fst (process_account_emails env a m ga gr db)) = 0
        \<and> spam_detected (fst (process_account_emails env a m ga gr db)) = 0
        \<and> analyzed_emails (snd (process_account_emails env a m ga gr db)) = analyzed_emails db
        \<and> map acc_total_emails_checked
            (email_accounts (snd (process_account_emails env a m ga gr db)))
          = map acc_total_emails_checked (email_accounts db)
        \<and> map acc_total_spam_detected
            (email_accounts (snd (process_account_emails env a m ga gr db)))
          = map acc_total_spam_detected (email_accounts db))"
  using pass_counts [of db env a m ga gr] pass_counts_no_fault [of env db a m ga gr]
    pass_totals [of env a m ga gr db] pass_all_stored [of db a env m ga gr]
  by (intro conjI impI) blast+

theorem counters_count_new_rows_witness:
  "(\<forall>j. env_store_fault example_env j = No_Fault)
   \<and> \<not> env_update_fault example_env
   \<and> list_all (\<lambda>e. email_exists (snd (process_account_emails example_env 1 50 False False example_db))
                  1 (info_email_id e))
       (fetch_emails (env_mailbox example_env) 50 False False)
   \<and> emails_processed (fst (process_account_emails example_env 1 50 False False
        (snd (process_account_emails example_env 1 50 False False example_db)))) = 0
   \<and> spam_detected (fst (process_account_emails example_env 1 50 False False
        (snd (process_account_emails example_env 1 50 False False example_db)))) = 0
   \<and> map acc_total_emails_checked (email_accounts (snd (process_account_emails example_env 1 50 False False
        (snd (process_account_emails example_env 1 50 False False example_db)))))
     = map acc_total_emails_checked
         (email_accounts (snd (process_account_emails example_env 1 50 False False example_db)))"
proof -
  have nf: "\<forall>j. env_store_fault example_env j = No_Fault"
    by (simp add: example_env_def)
  have all: "list_all (\<lambda>e. email_exists (snd (process_account_emails example_env 1 50 False False example_db))
                  1 (info_email_id e))
       (fetch_emails (env_mailbox example_env) 50 False False)"
    using example_connects nf by (rule pass_stores_all)
  have u: "\<not> env_update_fault example_env"
    by (simp add: example_env_def)
  show ?thesis
    using counters_count_new_rows [of "snd (process_account_emails example_env 1 50 False False example_db)"
        example_env 1 50 False False] nf all u
    by blast
qed

section \<open>The scheduler\<close>















end
